theory Spec2Isabelle
  imports Main "HOL-Library.Word" "HOL-Library.AList"
begin

unbundle bit_operations_syntax

section \<open>Lexical path functions of the Go standard library (Unix)\<close>

text \<open>
  \<^verbatim>\<open>writefile.go\<close> calls \<^verbatim>\<open>filepath.IsAbs\<close>, \<^verbatim>\<open>filepath.Join\<close>, \<^verbatim>\<open>filepath.Dir\<close>,
  \<^verbatim>\<open>filepath.Base\<close>, \<^verbatim>\<open>path.Join\<close> and \<^verbatim>\<open>strings.HasPrefix\<close>. They are purely lexical.
  On Unix the separator is the slash and there is no volume name.
\<close>

definition IsPathSeparator :: "char \<Rightarrow> bool" where
  "IsPathSeparator c = (c = CHR ''/'')"

definition HasPrefix :: "string \<Rightarrow> string \<Rightarrow> bool" where
  "HasPrefix s pre = (length pre \<le> length s \<and> take (length pre) s = pre)"

definition IsAbs :: "string \<Rightarrow> bool" where
  "IsAbs p = HasPrefix p ''/''"

text \<open>\<^verbatim>\<open>strings.Join(elems, "/")\<close>.\<close>

fun join_sep :: "string list \<Rightarrow> string" where
  "join_sep [] = []"
| "join_sep [x] = x"
| "join_sep (x # y # ys) = x @ ''/'' @ join_sep (y # ys)"

text \<open>
  The scanning loop of \<^verbatim>\<open>filepath.Clean\<close>. The loop reads the path byte by byte and
  distinguishes, in this order, an empty element (a separator), a \<^verbatim>\<open>.\<close> element, a
  \<^verbatim>\<open>..\<close> element and a real element. Go's output buffer is held here as the list of
  the elements written so far: the write index \<^verbatim>\<open>out.w\<close> is beyond the mark \<^verbatim>\<open>dotdot\<close>
  exactly when the last element written is a real one, and backtracking to the previous
  separator removes that last element.
\<close>

function clean_loop :: "bool \<Rightarrow> string list \<Rightarrow> string \<Rightarrow> string list" where
  "clean_loop rooted out [] = out"
| "clean_loop rooted out (c # rest) =
    (if IsPathSeparator c then clean_loop rooted out rest
     else if c = CHR ''.'' \<and> (rest = [] \<or> IsPathSeparator (hd rest))
       then clean_loop rooted out rest
     else if c = CHR ''.'' \<and> hd rest = CHR ''.''
               \<and> (tl rest = [] \<or> IsPathSeparator (hd (tl rest)))
       then (if out \<noteq> [] \<and> last out \<noteq> ''..'' then clean_loop rooted (butlast out) (tl rest)
             else if \<not> rooted then clean_loop rooted (out @ [''..'']) (tl rest)
             else clean_loop rooted out (tl rest))
     else clean_loop rooted
            (out @ [takeWhile (\<lambda>x. \<not> IsPathSeparator x) (c # rest)])
            (dropWhile (\<lambda>x. \<not> IsPathSeparator x) (c # rest)))"
  by pat_completeness auto
termination
  by (relation "measure (\<lambda>(rooted, out, p). length p)")
     (auto simp: less_Suc_eq_le length_dropWhile_le)

definition Clean :: "string \<Rightarrow> string" where
  "Clean p =
    (if p = [] then ''.''
     else if IsPathSeparator (hd p) then ''/'' @ join_sep (clean_loop True [] (tl p))
     else (let out = clean_loop False [] p in if out = [] then ''.'' else join_sep out))"

text \<open>\<^verbatim>\<open>filepath.Join\<close>: the first non-empty element and all that follow, joined and cleaned.\<close>

fun Join :: "string list \<Rightarrow> string" where
  "Join [] = []"
| "Join (e # es) = (if e \<noteq> [] then Clean (join_sep (e # es)) else Join es)"

text \<open>\<^verbatim>\<open>filepath.Dir\<close>: everything up to and including the last separator, cleaned.\<close>

definition Dir :: "string \<Rightarrow> string" where
  "Dir p = Clean (rev (dropWhile (\<lambda>x. \<not> IsPathSeparator x) (rev p)))"

text \<open>\<^verbatim>\<open>filepath.Base\<close>: the last element, after trailing separators are stripped.\<close>

definition Base :: "string \<Rightarrow> string" where
  "Base p =
    (if p = [] then ''.''
     else (let p1 = rev (dropWhile IsPathSeparator (rev p));
               p2 = rev (takeWhile (\<lambda>x. \<not> IsPathSeparator x) (rev p1))
           in if p2 = [] then ''/'' else p2))"

text \<open>
  The elements of a path, the empty ones dropped, and what it is for a path to lie
  strictly below a directory: its elements begin with those of the directory and go on.
  These two are not functions of the program; they say what the prefix test of
  \<^verbatim>\<open>WriteFile\<close> is there to decide.
\<close>

fun elements_from :: "string \<Rightarrow> string \<Rightarrow> string list" where
  "elements_from cur [] = (if cur = [] then [] else [cur])"
| "elements_from cur (c # cs) =
    (if IsPathSeparator c then (if cur = [] then [] else [cur]) @ elements_from [] cs
     else elements_from (cur @ [c]) cs)"

definition elements :: "string \<Rightarrow> string list" where
  "elements p = elements_from [] p"

definition descendant :: "string \<Rightarrow> string \<Rightarrow> bool" where
  "descendant d D = (length (elements D) < length (elements d)
                      \<and> take (length (elements D)) (elements d) = elements D)"

section \<open>Data model\<close>

text \<open>
  \<^verbatim>\<open>os.FileMode\<close> is a 32-bit unsigned integer; \<^verbatim>\<open>os.ModeDir\<close> is its top bit.
  The octal defaults 0755 and 0644 of the source are written in hexadecimal.
\<close>

type_synonym FileMode = "32 word"

definition ModeDir :: FileMode where
  "ModeDir = 0x80000000"

definition DefaultDirectoryMode :: FileMode where
  "DefaultDirectoryMode = 0x1ED"

definition DefaultFileMode :: FileMode where
  "DefaultFileMode = 0x1A4"

definition DefaultTempPattern :: string where
  "DefaultTempPattern = ''.temp*~''"

record Config =
  Directory :: string
  DirectoryMode :: FileMode
  DirectoryUID :: int
  DirectoryGID :: int
  EnsureDirectoryOwnership :: bool
  FileMode :: FileMode
  FileUID :: int
  FileGID :: int
  EnsureFileOwnership :: bool
  TempPattern :: string

definition getTempPattern :: "Config \<Rightarrow> string" where
  "getTempPattern c = (if TempPattern c \<noteq> [] then TempPattern c else DefaultTempPattern)"

definition getFileMode :: "Config \<Rightarrow> FileMode" where
  "getFileMode c = (if FileMode c \<noteq> 0 then FileMode c else DefaultFileMode)"

definition getDirectoryMode :: "Config \<Rightarrow> FileMode" where
  "getDirectoryMode c = (if DirectoryMode c \<noteq> 0 then DirectoryMode c else DefaultDirectoryMode)"

subsection \<open>Errors and panics\<close>

text \<open>
  A Go \<^verbatim>\<open>error\<close> is the \<^verbatim>\<open>InvalidName\<close> of this package, an error of the operating
  system (an errno; \<^verbatim>\<open>EBADF\<close> stands for the use of a closed file), or any other error
  value, such as one a write callback makes up. \<^verbatim>\<open>os.IsNotExist\<close> and \<^verbatim>\<open>os.IsExist\<close>
  classify the errno.
\<close>

datatype errno = ENOENT | EEXIST | ENOTEMPTY | ENOTDIR | EISDIR | EPERM | EIO | EBADF

datatype error = InvalidName string | PathError errno | CustomError string

fun IsNotExist :: "error \<Rightarrow> bool" where
  "IsNotExist (PathError e) = (e = ENOENT)"
| "IsNotExist _ = False"

fun IsExist :: "error \<Rightarrow> bool" where
  "IsExist (PathError e) = (e = EEXIST \<or> e = ENOTEMPTY)"
| "IsExist _ = False"

text \<open>A panic carries a message or, in the deferred cleanup, an error value.\<close>

datatype panic = PanicString string | PanicError error

text \<open>A call either returns normally or panics; \<^verbatim>\<open>Return None\<close> is the \<^verbatim>\<open>nil\<close> error.\<close>

datatype 'a outcome = Return 'a | Panic panic

definition panicDirectoryEmpty :: panic where
  "panicDirectoryEmpty = PanicString (''writefile: Directory must not be '' @ [CHR 0x22, CHR 0x22])"

definition panicDirectoryNotAbsolute :: panic where
  "panicDirectoryNotAbsolute = PanicString ''writefile: Directory must be absolute''"

subsection \<open>The operating system\<close>

text \<open>
  What \<^verbatim>\<open>os.Stat\<close> reports: the mode, and the \<^verbatim>\<open>Sys()\<close> value, which is a
  \<^verbatim>\<open>*syscall.Stat_t\<close> with the owner when the type assertion of the source succeeds.
\<close>

record Stat_t =
  Uid :: "32 word"
  Gid :: "32 word"

record FileInfo =
  Mode :: FileMode
  Sys :: "Stat_t option"

text \<open>An open \<^verbatim>\<open>*os.File\<close>: its name and its descriptor.\<close>

record File =
  Name :: string
  Fd :: nat

text \<open>
  The system calls the package makes, over a state of the world \<open>'w\<close> that the package
  never inspects. Each call answers and leaves a new world. Nothing is assumed of the
  answers: any call may fail with any error.
\<close>

record 'w OS =
  os_Stat :: "string \<Rightarrow> 'w \<Rightarrow> (error + FileInfo) \<times> 'w"
  os_Mkdir :: "string \<Rightarrow> FileMode \<Rightarrow> 'w \<Rightarrow> error option \<times> 'w"
  os_Chmod :: "string \<Rightarrow> FileMode \<Rightarrow> 'w \<Rightarrow> error option \<times> 'w"
  os_Chown :: "string \<Rightarrow> int \<Rightarrow> int \<Rightarrow> 'w \<Rightarrow> error option \<times> 'w"
  os_Remove :: "string \<Rightarrow> 'w \<Rightarrow> error option \<times> 'w"
  os_Rename :: "string \<Rightarrow> string \<Rightarrow> 'w \<Rightarrow> error option \<times> 'w"
  ioutil_TempFile :: "string \<Rightarrow> string \<Rightarrow> 'w \<Rightarrow> (error + File) \<times> 'w"
  file_Stat :: "File \<Rightarrow> 'w \<Rightarrow> (error + FileInfo) \<times> 'w"
  file_Close :: "File \<Rightarrow> 'w \<Rightarrow> error option \<times> 'w"

type_synonym 'w WriteOperation = "File \<Rightarrow> 'w \<Rightarrow> error option \<times> 'w"

text \<open>
  Every call is logged with its answer, so that a theorem can say which operations a
  function performed, in which order and with what result.
\<close>

datatype syscall =
    SysStat string
  | SysMkdir string FileMode
  | SysChmod string FileMode
  | SysChown string int int
  | SysRemove string
  | SysRename string string
  | SysTempFile string string
  | SysFileStat File
  | SysFileClose File
  | SysWriteOp File

datatype answer = Succeeded | Failed error | Created File

type_synonym event = "syscall \<times> answer"

type_synonym 'w state = "'w \<times> event list"

definition answered :: "error option \<Rightarrow> answer" where
  "answered r = (case r of None \<Rightarrow> Succeeded | Some e \<Rightarrow> Failed e)"

definition call ::
  "syscall \<Rightarrow> ('w \<Rightarrow> error option \<times> 'w) \<Rightarrow> 'w state \<Rightarrow> error option \<times> 'w state" where
  "call sc f s = (case f (fst s) of (r, w') \<Rightarrow> (r, (w', snd s @ [(sc, answered r)])))"

definition query ::
  "syscall \<Rightarrow> ('a \<Rightarrow> answer) \<Rightarrow> ('w \<Rightarrow> (error + 'a) \<times> 'w) \<Rightarrow> 'w state
     \<Rightarrow> (error + 'a) \<times> 'w state" where
  "query sc ok f s =
    (case f (fst s) of (r, w') \<Rightarrow>
       (r, (w', snd s @ [(sc, case r of Inl e \<Rightarrow> Failed e | Inr a \<Rightarrow> ok a)])))"

definition Stat :: "'w OS \<Rightarrow> string \<Rightarrow> 'w state \<Rightarrow> (error + FileInfo) \<times> 'w state" where
  "Stat os p = query (SysStat p) (\<lambda>_. Succeeded) (os_Stat os p)"

definition Mkdir :: "'w OS \<Rightarrow> string \<Rightarrow> FileMode \<Rightarrow> 'w state \<Rightarrow> error option \<times> 'w state" where
  "Mkdir os p m = call (SysMkdir p m) (os_Mkdir os p m)"

definition Chmod :: "'w OS \<Rightarrow> string \<Rightarrow> FileMode \<Rightarrow> 'w state \<Rightarrow> error option \<times> 'w state" where
  "Chmod os p m = call (SysChmod p m) (os_Chmod os p m)"

definition Chown :: "'w OS \<Rightarrow> string \<Rightarrow> int \<Rightarrow> int \<Rightarrow> 'w state \<Rightarrow> error option \<times> 'w state" where
  "Chown os p u g = call (SysChown p u g) (os_Chown os p u g)"

definition Remove :: "'w OS \<Rightarrow> string \<Rightarrow> 'w state \<Rightarrow> error option \<times> 'w state" where
  "Remove os p = call (SysRemove p) (os_Remove os p)"

definition Rename :: "'w OS \<Rightarrow> string \<Rightarrow> string \<Rightarrow> 'w state \<Rightarrow> error option \<times> 'w state" where
  "Rename os p q = call (SysRename p q) (os_Rename os p q)"

definition TempFile :: "'w OS \<Rightarrow> string \<Rightarrow> string \<Rightarrow> 'w state \<Rightarrow> (error + File) \<times> 'w state" where
  "TempFile os d pat = query (SysTempFile d pat) Created (ioutil_TempFile os d pat)"

definition FileStat :: "'w OS \<Rightarrow> File \<Rightarrow> 'w state \<Rightarrow> (error + FileInfo) \<times> 'w state" where
  "FileStat os f = query (SysFileStat f) (\<lambda>_. Succeeded) (file_Stat os f)"

definition FileClose :: "'w OS \<Rightarrow> File \<Rightarrow> 'w state \<Rightarrow> error option \<times> 'w state" where
  "FileClose os f = call (SysFileClose f) (file_Close os f)"

definition WriteOp :: "'w WriteOperation \<Rightarrow> File \<Rightarrow> 'w state \<Rightarrow> error option \<times> 'w state" where
  "WriteOp op f = call (SysWriteOp f) (op f)"

section \<open>The directory guarantor\<close>

definition parentConfig :: "Config \<Rightarrow> Config outcome" where
  "parentConfig c =
    (if Directory c = [] then Panic panicDirectoryEmpty
     else if \<not> IsAbs (Directory c) then Panic panicDirectoryNotAbsolute
     else (let parentConfig = c\<lparr>Directory := Dir (Directory c)\<rparr>
           in if Directory parentConfig = Directory c then Panic (PanicString ''wtf'')
              else Return parentConfig))"

text \<open>
  The ownership block, which the source writes out three times (for the directory in
  \<^verbatim>\<open>EnsureDirectory\<close> and \<^verbatim>\<open>EnsureDirectoryIfNotExist\<close>, for the temporary file in
  \<^verbatim>\<open>WriteFile\<close>): assert that \<^verbatim>\<open>info.Sys()\<close> is a \<^verbatim>\<open>*syscall.Stat_t\<close>, panic with the
  given message if it is not, and chown when the owner or the group differs from the
  configured one converted to \<^verbatim>\<open>uint32\<close>.
\<close>

definition checkOwnership ::
  "'w OS \<Rightarrow> string \<Rightarrow> int \<Rightarrow> int \<Rightarrow> string \<Rightarrow> FileInfo \<Rightarrow> 'w state \<Rightarrow> error option outcome \<times> 'w state" where
  "checkOwnership os path uid gid msg info s =
    (case Sys info of
       Some stat \<Rightarrow>
         if Uid stat \<noteq> word_of_int uid \<or> Gid stat \<noteq> word_of_int gid
         then (case Chown os path uid gid s of (err, s') \<Rightarrow> (Return err, s'))
         else (Return None, s)
     | None \<Rightarrow> (Panic (PanicString msg), s))"

definition unableDirectory :: string where
  "unableDirectory = ''writefile: unable to check directory ownership''"

definition unableFile :: string where
  "unableFile = ''writefile: unable to check file ownership''"

function EnsureDirectoryIfNotExist ::
  "'w OS \<Rightarrow> Config \<Rightarrow> 'w state \<Rightarrow> error option outcome \<times> 'w state" where
  "EnsureDirectoryIfNotExist os c s =
    (if Directory c = [] then (Panic panicDirectoryEmpty, s)
     else if \<not> IsAbs (Directory c) then (Panic panicDirectoryNotAbsolute, s)
     else if Directory c = ''/'' then (Return None, s)
     else (case Stat os (Directory c) s of
        (Inr info, s1) \<Rightarrow> (Return None, s1)
      | (Inl err, s1) \<Rightarrow>
          if \<not> IsNotExist err then (Return (Some err), s1)
          else (case parentConfig c of
             Panic p \<Rightarrow> (Panic p, s1)
           | Return pc \<Rightarrow>
              (case EnsureDirectoryIfNotExist os pc s1 of
                 (Panic p, s2) \<Rightarrow> (Panic p, s2)
               | (Return (Some err), s2) \<Rightarrow> (Return (Some err), s2)
               | (Return None, s2) \<Rightarrow>
                  (case Mkdir os (Directory c) (getDirectoryMode c) s2 of
                     (mkErr, s3) \<Rightarrow>
                       if (case mkErr of Some err \<Rightarrow> \<not> IsExist err | None \<Rightarrow> False)
                       then (Return mkErr, s3)
                       else if EnsureDirectoryOwnership c then
                         (case Stat os (Directory c) s3 of
                            (Inl err, s4) \<Rightarrow> (Return (Some err), s4)
                          | (Inr info, s4) \<Rightarrow>
                              checkOwnership os (Directory c) (DirectoryUID c) (DirectoryGID c)
                                unableDirectory info s4)
                       else (Return None, s3))))))"
  by pat_completeness auto

text \<open>
  \<^verbatim>\<open>EnsureDirectory\<close>, in two parts: the stat of the directory, which creates the directory
  and stats again when the directory does not exist and yields the \<^verbatim>\<open>info\<close> or the way
  the function leaves; then the mode and the ownership.
\<close>

definition EnsureDirectory_stat ::
  "'w OS \<Rightarrow> Config \<Rightarrow> 'w state \<Rightarrow> (error option outcome + FileInfo) \<times> 'w state" where
  "EnsureDirectory_stat os c s =
    (case Stat os (Directory c) s of
       (Inr info, s1) \<Rightarrow> (Inr info, s1)
     | (Inl err, s1) \<Rightarrow>
         if \<not> IsNotExist err then (Inl (Return (Some err)), s1)
         else (case EnsureDirectoryIfNotExist os c s1 of
            (Panic p, s2) \<Rightarrow> (Inl (Panic p), s2)
          | (Return (Some err), s2) \<Rightarrow> (Inl (Return (Some err)), s2)
          | (Return None, s2) \<Rightarrow>
             (case Stat os (Directory c) s2 of
                (Inl err, s3) \<Rightarrow> (Inl (Return (Some err)), s3)
              | (Inr info, s3) \<Rightarrow> (Inr info, s3))))"

definition EnsureDirectory ::
  "'w OS \<Rightarrow> Config \<Rightarrow> 'w state \<Rightarrow> error option outcome \<times> 'w state" where
  "EnsureDirectory os c s =
    (if Directory c = [] then (Panic panicDirectoryEmpty, s)
     else if \<not> IsAbs (Directory c) then (Panic panicDirectoryNotAbsolute, s)
     else (case EnsureDirectory_stat os c s of
        (Inl out, s') \<Rightarrow> (out, s')
      | (Inr info, s') \<Rightarrow>
         (case (if Mode info \<noteq> getDirectoryMode c OR ModeDir
                then Chmod os (Directory c) (getDirectoryMode c) s' else (None, s')) of
            (Some err, s'') \<Rightarrow> (Return (Some err), s'')
          | (None, s'') \<Rightarrow>
              if EnsureDirectoryOwnership c
              then checkOwnership os (Directory c) (DirectoryUID c) (DirectoryGID c)
                     unableDirectory info s''
              else (Return None, s''))))"

section \<open>The atomic file writer\<close>

text \<open>
  Temp-file creation with its single retry: when the first \<^verbatim>\<open>ioutil.TempFile\<close> fails with
  a not-exist error, \<^verbatim>\<open>EnsureDirectoryIfNotExist\<close> runs and the creation is tried once more.
  The result is the open file, or the way \<^verbatim>\<open>WriteFile\<close> leaves.
\<close>

definition WriteFile_create ::
  "'w OS \<Rightarrow> Config \<Rightarrow> 'w state \<Rightarrow> (error option outcome + File) \<times> 'w state" where
  "WriteFile_create os c s =
    (case TempFile os (Directory c) (getTempPattern c) s of
       (Inr f, s1) \<Rightarrow> (Inr f, s1)
     | (Inl err, s1) \<Rightarrow>
         if IsNotExist err then
           (case EnsureDirectoryIfNotExist os c s1 of
              (Panic p, s2) \<Rightarrow> (Inl (Panic p), s2)
            | (Return (Some err'), s2) \<Rightarrow> (Inl (Return (Some err')), s2)
            | (Return None, s2) \<Rightarrow>
               (case TempFile os (Directory c) (getTempPattern c) s2 of
                  (Inl err', s3) \<Rightarrow> (Inl (Return (Some err')), s3)
                | (Inr f, s3) \<Rightarrow> (Inr f, s3)))
         else (Inl (Return (Some err)), s1))"

text \<open>
  The body of \<^verbatim>\<open>WriteFile\<close> after the name checks, in three parts: the callback with
  the close and the rename that follow it (\<^verbatim>\<open>WriteFile_publish\<close>), what precedes them once
  the temporary file \<^verbatim>\<open>f\<close> is there (\<^verbatim>\<open>WriteFile_write\<close>: mode and ownership), and the
  whole (\<^verbatim>\<open>WriteFile_body\<close>). Beside the outcome, the body yields the values the variables
  \<^verbatim>\<open>f\<close> and \<^verbatim>\<open>tmpName\<close> hold when it is left, which is what the deferred function reads.
  \<^verbatim>\<open>path.Join\<close> and \<^verbatim>\<open>filepath.Join\<close> agree on Unix.
\<close>

definition WriteFile_publish ::
  "'w OS \<Rightarrow> Config \<Rightarrow> string \<Rightarrow> 'w WriteOperation \<Rightarrow> File \<Rightarrow> 'w state
     \<Rightarrow> (error option outcome \<times> File option \<times> string) \<times> 'w state" where
  "WriteFile_publish os c name op f s4 =
    (let tmpName = Name f in
     case WriteOp op f s4 of
       (Some opErr, s5) \<Rightarrow> ((Return (Some opErr), Some f, tmpName), s5)
     | (None, s5) \<Rightarrow>
        (case FileClose os f s5 of
           (Some err, s6) \<Rightarrow> ((Return (Some err), None, tmpName), s6)
         | (None, s6) \<Rightarrow>
            (case Rename os tmpName (Join [Directory c, name]) s6 of
               (None, s7) \<Rightarrow> ((Return None, None, []), s7)
             | (Some err, s7) \<Rightarrow> ((Return (Some err), None, tmpName), s7))))"

definition WriteFile_write ::
  "'w OS \<Rightarrow> Config \<Rightarrow> string \<Rightarrow> 'w WriteOperation \<Rightarrow> File \<Rightarrow> 'w state
     \<Rightarrow> (error option outcome \<times> File option \<times> string) \<times> 'w state" where
  "WriteFile_write os c name op f s1 =
    (let tmpName = Name f in
     case FileStat os f s1 of
       (Inl err, s2) \<Rightarrow> ((Return (Some err), Some f, tmpName), s2)
     | (Inr info, s2) \<Rightarrow>
        (case (if Mode info \<noteq> getFileMode c
               then Chmod os tmpName (getFileMode c) s2 else (None, s2)) of
           (Some err, s3) \<Rightarrow> ((Return (Some err), Some f, tmpName), s3)
         | (None, s3) \<Rightarrow>
            (case (if EnsureFileOwnership c
                   then checkOwnership os tmpName (FileUID c) (FileGID c) unableFile info s3
                   else (Return None, s3)) of
               (Panic p, s4) \<Rightarrow> ((Panic p, Some f, tmpName), s4)
             | (Return (Some err), s4) \<Rightarrow> ((Return (Some err), Some f, tmpName), s4)
             | (Return None, s4) \<Rightarrow> WriteFile_publish os c name op f s4)))"

definition WriteFile_body ::
  "'w OS \<Rightarrow> Config \<Rightarrow> string \<Rightarrow> 'w WriteOperation \<Rightarrow> 'w state
     \<Rightarrow> (error option outcome \<times> File option \<times> string) \<times> 'w state" where
  "WriteFile_body os c name op s =
    (case WriteFile_create os c s of
       (Inl out, s1) \<Rightarrow> ((out, None, []), s1)
     | (Inr f, s1) \<Rightarrow> WriteFile_write os c name op f s1)"

text \<open>
  The deferred function. It runs however the body is left, also by a panic; when it
  panics itself, its panic replaces the body's outcome.
\<close>

definition WriteFile_deferred ::
  "'w OS \<Rightarrow> (error option outcome \<times> File option \<times> string) \<times> 'w state
     \<Rightarrow> error option outcome \<times> 'w state" where
  "WriteFile_deferred os r =
    (case r of ((out, f, tmpName), s) \<Rightarrow>
      (case (case f of Some fh \<Rightarrow> FileClose os fh s | None \<Rightarrow> (None, s)) of
         (closeErr, s1) \<Rightarrow>
          (case (if tmpName \<noteq> [] then Remove os tmpName s1 else (None, s1)) of
             (cleanupErr, s2) \<Rightarrow>
               if (case cleanupErr of Some e \<Rightarrow> \<not> IsNotExist e | None \<Rightarrow> False)
               then (Panic (PanicError (the cleanupErr)), s2)
               else (case closeErr of
                       Some e \<Rightarrow> (Panic (PanicError e), s2)
                     | None \<Rightarrow> (out, s2)))))"

function WriteFile ::
  "'w OS \<Rightarrow> Config \<Rightarrow> string \<Rightarrow> 'w WriteOperation \<Rightarrow> 'w state
     \<Rightarrow> error option outcome \<times> 'w state" where
  "WriteFile os c name op s =
    (if Directory c = [] then (Panic panicDirectoryEmpty, s)
     else if \<not> IsAbs (Directory c) then (Panic panicDirectoryNotAbsolute, s)
     else if IsAbs name then (Return (Some (InvalidName name)), s)
     else (let fullPath = Join [Directory c, name]; dir = Dir fullPath in
       if dir \<noteq> Directory c then
         (if \<not> HasPrefix dir (Directory c @ ''/'') then (Return (Some (InvalidName name)), s)
          else WriteFile os (c\<lparr>Directory := dir\<rparr>) (Base fullPath) op s)
       else WriteFile_deferred os (WriteFile_body os c name op s)))"
  by pat_completeness auto

section \<open>A file system to run on\<close>

text \<open>
  The functions above are stated for any operating system. To run them, and to say what
  two calls in a row do, this section gives one: a single process with all privileges
  on a tree of directories and regular files, where a call fails only for the state of
  the tree (a missing path, a name already taken, a parent that is no directory, a
  closed descriptor). Paths are resolved lexically; a descriptor is resolved through the
  name it was opened under.
\<close>

record inode =
  is_dir :: bool
  perm :: FileMode
  uid :: "32 word"
  gid :: "32 word"
  content :: string

record fs =
  nodes :: "(string \<times> inode) list"
  opened :: "nat list"
  umask :: FileMode
  euid :: "32 word"
  egid :: "32 word"
  counter :: nat

definition lookup :: "fs \<Rightarrow> string \<Rightarrow> inode option" where
  "lookup w p = map_of (nodes w) (Clean p)"

definition store :: "string \<Rightarrow> inode \<Rightarrow> fs \<Rightarrow> fs" where
  "store p n w = w\<lparr>nodes := AList.update (Clean p) n (nodes w)\<rparr>"

text \<open>
  The bits \<^verbatim>\<open>os.Chmod\<close> passes on: the nine permission bits and \<^verbatim>\<open>ModeSetuid\<close>,
  \<^verbatim>\<open>ModeSetgid\<close>, \<^verbatim>\<open>ModeSticky\<close>. \<^verbatim>\<open>os.Stat\<close> reports them back with \<^verbatim>\<open>ModeDir\<close> for
  a directory.
\<close>

definition chmodBits :: FileMode where
  "chmodBits = 0xD001FF"

definition info_of :: "inode \<Rightarrow> FileInfo" where
  "info_of n = \<lparr>Mode = (if is_dir n then ModeDir else 0) OR (perm n AND chmodBits),
               Sys = Some \<lparr>Uid = uid n, Gid = gid n\<rparr>\<rparr>"

definition fs_Stat :: "string \<Rightarrow> fs \<Rightarrow> (error + FileInfo) \<times> fs" where
  "fs_Stat p w =
    (case lookup w p of
       Some n \<Rightarrow> (Inr (info_of n), w)
     | None \<Rightarrow>
        (case lookup w (Dir (Clean p)) of
           Some par \<Rightarrow> (Inl (PathError (if is_dir par then ENOENT else ENOTDIR)), w)
         | None \<Rightarrow> (Inl (PathError ENOENT), w)))"

definition fs_Mkdir :: "string \<Rightarrow> FileMode \<Rightarrow> fs \<Rightarrow> error option \<times> fs" where
  "fs_Mkdir p m w =
    (case lookup w p of
       Some n \<Rightarrow> (Some (PathError EEXIST), w)
     | None \<Rightarrow>
        (case lookup w (Dir (Clean p)) of
           None \<Rightarrow> (Some (PathError ENOENT), w)
         | Some par \<Rightarrow>
            if \<not> is_dir par then (Some (PathError ENOTDIR), w)
            else (None, store p \<lparr>is_dir = True,
                                  perm = (m AND chmodBits) AND NOT (umask w AND 0x1FF),
                                  uid = euid w, gid = egid w, content = []\<rparr> w)))"

definition fs_Chmod :: "string \<Rightarrow> FileMode \<Rightarrow> fs \<Rightarrow> error option \<times> fs" where
  "fs_Chmod p m w =
    (case lookup w p of
       None \<Rightarrow> (Some (PathError ENOENT), w)
     | Some n \<Rightarrow> (None, store p (n\<lparr>perm := m AND chmodBits\<rparr>) w))"

text \<open>
  \<^verbatim>\<open>chown(2)\<close> takes its ids as 32-bit values and leaves an id unchanged when it is
  given as \<open>-1\<close>, which is \<^verbatim>\<open>0xFFFFFFFF\<close>. \<^verbatim>\<open>os.Chown\<close> hands the \<^verbatim>\<open>int\<close> of the caller
  down, so every id congruent to \<open>-1\<close> modulo \<open>2^32\<close> (such as 4294967295) leaves the id
  unchanged, and any other id is stored truncated to 32 bits.
\<close>

definition chownId :: "int \<Rightarrow> 32 word \<Rightarrow> 32 word" where
  "chownId i old = (if (word_of_int i :: 32 word) = - 1 then old else word_of_int i)"

definition fs_Chown :: "string \<Rightarrow> int \<Rightarrow> int \<Rightarrow> fs \<Rightarrow> error option \<times> fs" where
  "fs_Chown p u g w =
    (case lookup w p of
       None \<Rightarrow> (Some (PathError ENOENT), w)
     | Some n \<Rightarrow>
        (None, store p (n\<lparr>uid := chownId u (uid n), gid := chownId g (gid n)\<rparr>) w))"

definition has_children :: "fs \<Rightarrow> string \<Rightarrow> bool" where
  "has_children w q = list_ex (\<lambda>kv. fst kv \<noteq> q \<and> Dir (fst kv) = q) (nodes w)"

definition fs_Remove :: "string \<Rightarrow> fs \<Rightarrow> error option \<times> fs" where
  "fs_Remove p w =
    (case lookup w p of
       None \<Rightarrow> (Some (PathError ENOENT), w)
     | Some n \<Rightarrow>
        if is_dir n \<and> has_children w (Clean p) then (Some (PathError ENOTEMPTY), w)
        else (None, w\<lparr>nodes := AList.delete (Clean p) (nodes w)\<rparr>))"

text \<open>Only regular files are renamed in this model; a directory answers \<^verbatim>\<open>EPERM\<close>.\<close>

definition fs_Rename :: "string \<Rightarrow> string \<Rightarrow> fs \<Rightarrow> error option \<times> fs" where
  "fs_Rename old new w =
    (case lookup w old of
       None \<Rightarrow> (Some (PathError ENOENT), w)
     | Some n \<Rightarrow>
        if is_dir n then (Some (PathError EPERM), w)
        else (case lookup w (Dir (Clean new)) of
           None \<Rightarrow> (Some (PathError ENOENT), w)
         | Some par \<Rightarrow>
            if \<not> is_dir par then (Some (PathError ENOTDIR), w)
            else if (case lookup w new of Some t \<Rightarrow> is_dir t | None \<Rightarrow> False)
              then (Some (PathError EISDIR), w)
            else (None, store new n (w\<lparr>nodes := AList.delete (Clean old) (nodes w)\<rparr>))))"

text \<open>
  \<^verbatim>\<open>ioutil.TempFile\<close> puts a random string in the place of the last \<^verbatim>\<open>*\<close> of the pattern
  (at its end when there is none) and creates the file exclusively with mode 0600. The
  random source is a counter here, written in decimal; a name already taken answers
  \<^verbatim>\<open>EEXIST\<close>.
\<close>

fun decimal :: "nat \<Rightarrow> string" where
  "decimal n =
    (if n < 10 then [''0123456789'' ! n]
     else decimal (n div 10) @ [''0123456789'' ! (n mod 10)])"

definition temp_name :: "string \<Rightarrow> string \<Rightarrow> nat \<Rightarrow> string" where
  "temp_name d pat k =
    (let star = (\<lambda>x. x \<noteq> CHR ''*'');
         pre = (if CHR ''*'' \<in> set pat then rev (tl (dropWhile star (rev pat))) else pat);
         suf = (if CHR ''*'' \<in> set pat then rev (takeWhile star (rev pat)) else [])
     in Join [d, pre @ decimal k @ suf])"

definition fs_TempFile :: "string \<Rightarrow> string \<Rightarrow> fs \<Rightarrow> (error + File) \<times> fs" where
  "fs_TempFile d pat w =
    (case lookup w d of
       None \<Rightarrow> (Inl (PathError ENOENT), w)
     | Some n \<Rightarrow>
        if \<not> is_dir n then (Inl (PathError ENOTDIR), w)
        else (let name = temp_name d pat (counter w) in
          case lookup w name of
            Some t \<Rightarrow> (Inl (PathError EEXIST), w\<lparr>counter := Suc (counter w)\<rparr>)
          | None \<Rightarrow>
             (Inr \<lparr>Name = name, Fd = counter w\<rparr>,
              store name \<lparr>is_dir = False, perm = 0x180 AND NOT (umask w AND 0x1FF),
                          uid = euid w, gid = egid w, content = []\<rparr>
                (w\<lparr>opened := counter w # opened w, counter := Suc (counter w)\<rparr>))))"

definition fs_FileStat :: "File \<Rightarrow> fs \<Rightarrow> (error + FileInfo) \<times> fs" where
  "fs_FileStat f w =
    (if Fd f \<in> set (opened w)
     then (case lookup w (Name f) of
             Some n \<Rightarrow> (Inr (info_of n), w)
           | None \<Rightarrow> (Inl (PathError ENOENT), w))
     else (Inl (PathError EBADF), w))"

definition fs_Close :: "File \<Rightarrow> fs \<Rightarrow> error option \<times> fs" where
  "fs_Close f w =
    (if Fd f \<in> set (opened w) then (None, w\<lparr>opened := removeAll (Fd f) (opened w)\<rparr>)
     else (Some (PathError EBADF), w))"

definition unix :: "fs OS" where
  "unix = \<lparr>os_Stat = fs_Stat, os_Mkdir = fs_Mkdir, os_Chmod = fs_Chmod, os_Chown = fs_Chown,
           os_Remove = fs_Remove, os_Rename = fs_Rename, ioutil_TempFile = fs_TempFile,
           file_Stat = fs_FileStat, file_Close = fs_Close\<rparr>"

text \<open>Write callbacks: one that writes a string, one that fails, one that closes its file and fails.\<close>

definition writeString :: "string \<Rightarrow> fs WriteOperation" where
  "writeString data f w =
    (if Fd f \<in> set (opened w)
     then (case lookup w (Name f) of
             Some n \<Rightarrow> (None, store (Name f) (n\<lparr>content := content n @ data\<rparr>) w)
           | None \<Rightarrow> (Some (PathError ENOENT), w))
     else (Some (PathError EBADF), w))"

definition failingOp :: "error \<Rightarrow> 'w WriteOperation" where
  "failingOp e f w = (Some e, w)"

definition closingOp :: "error \<Rightarrow> fs WriteOperation" where
  "closingOp e f w = (Some e, snd (fs_Close f w))"

text \<open>A file system holding the root directory alone, and a configuration with every default.\<close>

definition rootNode :: inode where
  "rootNode = \<lparr>is_dir = True, perm = 0x1ED, uid = 0, gid = 0, content = []\<rparr>"

definition emptyFS :: fs where
  "emptyFS = \<lparr>nodes = [(''/'', rootNode)], opened = [], umask = 0x12, euid = 0, egid = 0,
              counter = 0\<rparr>"

definition config :: "string \<Rightarrow> Config" where
  "config d = \<lparr>Directory = d, DirectoryMode = 0, DirectoryUID = 0, DirectoryGID = 0,
               EnsureDirectoryOwnership = False, FileMode = 0, FileUID = 0, FileGID = 0,
               EnsureFileOwnership = False, TempPattern = []\<rparr>"

text \<open>
  A file system where the path \<^verbatim>\<open>/d\<close> is a regular file, and a configuration that asks for
  mode \<^verbatim>\<open>0750\<close> and owner and group 1000 on \<^verbatim>\<open>/data/app\<close>.
\<close>

definition fileNode :: inode where
  "fileNode = \<lparr>is_dir = False, perm = 0x1A4, uid = 0, gid = 0, content = ''data''\<rparr>"

definition fileFS :: fs where
  "fileFS = emptyFS\<lparr>nodes := [(''/'', rootNode), (''/d'', fileNode)]\<rparr>"

definition strictConfig :: Config where
  "strictConfig = (config ''/data/app'')\<lparr>DirectoryMode := 0x1E8, DirectoryUID := 1000,
     DirectoryGID := 1000, EnsureDirectoryOwnership := True\<rparr>"

text \<open>
  The node that \<^verbatim>\<open>EnsureDirectory\<close> leaves on \<open>unix\<close> when its stat has found the node
  \<open>n\<close>: the permission bits replaced if the reported mode differs from the configured one
  with \<^verbatim>\<open>ModeDir\<close>, the owner and the group replaced if ownership is enforced and one of
  them differs.
\<close>

definition normalized :: "Config \<Rightarrow> inode \<Rightarrow> inode" where
  "normalized c n =
    (let n1 = (if Mode (info_of n) \<noteq> getDirectoryMode c OR ModeDir
               then n\<lparr>perm := getDirectoryMode c AND chmodBits\<rparr> else n)
     in if EnsureDirectoryOwnership c
           \<and> (uid n \<noteq> word_of_int (DirectoryUID c) \<or> gid n \<noteq> word_of_int (DirectoryGID c))
        then n1\<lparr>uid := chownId (DirectoryUID c) (uid n1),
                gid := chownId (DirectoryGID c) (gid n1)\<rparr>
        else n1)"

section \<open>The shape of a run\<close>

text \<open>
  The operations a call of \<^verbatim>\<open>WriteFile\<close> logs, as a grammar. Once the temporary file is
  there, a run consists of operations on that file alone (stat, chmod, chown), and one of
  five endings: it stops before the callback, the callback fails, the close fails, the
  rename fails, or the rename succeeds. All but the last end in the operations of the
  deferred function, and \<open>escalate\<close> is the outcome the deferred function leaves.
\<close>

definition neutral :: "File \<Rightarrow> event \<Rightarrow> bool" where
  "neutral f ev =
    ((case fst ev of
        SysFileStat g \<Rightarrow> g = f
      | SysChmod p m \<Rightarrow> p = Name f
      | SysChown p u g \<Rightarrow> p = Name f
      | _ \<Rightarrow> False)
     \<and> (case snd ev of Created g \<Rightarrow> False | _ \<Rightarrow> True))"

definition plain :: "error option outcome \<Rightarrow> bool" where
  "plain out = (case out of Panic (PanicError e) \<Rightarrow> False | _ \<Rightarrow> True)"

definition escalate ::
  "error option \<Rightarrow> error option \<Rightarrow> error option outcome \<Rightarrow> error option outcome" where
  "escalate closeErr cleanupErr out =
    (case cleanupErr of
       Some x \<Rightarrow>
         if \<not> IsNotExist x then Panic (PanicError x)
         else (case closeErr of Some y \<Rightarrow> Panic (PanicError y) | None \<Rightarrow> out)
     | None \<Rightarrow> (case closeErr of Some y \<Rightarrow> Panic (PanicError y) | None \<Rightarrow> out))"

definition removal :: "File \<Rightarrow> error option \<Rightarrow> event list" where
  "removal f rr = (if Name f \<noteq> [] then [(SysRemove (Name f), answered rr)] else [])"

inductive write_run :: "File \<Rightarrow> string \<Rightarrow> error option outcome \<Rightarrow> event list \<Rightarrow> bool"
  for f :: File and target :: string where
  prepared: "neutral f ev \<Longrightarrow> write_run f target out evs \<Longrightarrow> write_run f target out (ev # evs)"
| stopped: "plain out \<Longrightarrow> Name f = [] \<longrightarrow> rr = None \<Longrightarrow>
     write_run f target (escalate rc rr out)
       ((SysFileClose f, answered rc) # removal f rr)"
| callback_failed: "Name f = [] \<longrightarrow> rr = None \<Longrightarrow>
     write_run f target (escalate rc rr (Return (Some e)))
       ((SysWriteOp f, Failed e) # (SysFileClose f, answered rc) # removal f rr)"
| close_failed: "Name f = [] \<longrightarrow> rr = None \<Longrightarrow>
     write_run f target (escalate None rr (Return (Some e)))
       ((SysWriteOp f, Succeeded) # (SysFileClose f, Failed e) # removal f rr)"
| rename_failed: "Name f = [] \<longrightarrow> rr = None \<Longrightarrow>
     write_run f target (escalate None rr (Return (Some e)))
       ((SysWriteOp f, Succeeded) # (SysFileClose f, Succeeded)
          # (SysRename (Name f) target, Failed e) # removal f rr)"
| renamed: "write_run f target (Return None)
       [(SysWriteOp f, Succeeded), (SysFileClose f, Succeeded),
        (SysRename (Name f) target, Succeeded)]"

definition guarantor :: "event \<Rightarrow> bool" where
  "guarantor ev =
    ((case fst ev of
        SysStat p \<Rightarrow> True
      | SysMkdir p m \<Rightarrow> True
      | SysChown p u g \<Rightarrow> True
      | _ \<Rightarrow> False)
     \<and> (case snd ev of Created g \<Rightarrow> False | _ \<Rightarrow> True))"

text \<open>
  The operations that change what is at the path \<open>p\<close>: a mkdir, chmod, chown or remove of
  \<open>p\<close>, a rename from or to \<open>p\<close>, the creation of a temporary file named \<open>p\<close>. The write
  callback is not among them: what it does to the file system is the caller's.
\<close>

definition touches :: "string \<Rightarrow> event \<Rightarrow> bool" where
  "touches p ev =
    ((case fst ev of
        SysMkdir q m \<Rightarrow> q = p
      | SysChmod q m \<Rightarrow> q = p
      | SysChown q u g \<Rightarrow> q = p
      | SysRemove q \<Rightarrow> q = p
      | SysRename a b \<Rightarrow> a = p \<or> b = p
      | _ \<Rightarrow> False)
     \<or> (case snd ev of Created f \<Rightarrow> Name f = p | _ \<Rightarrow> False))"

text \<open>
  The operations of \<^verbatim>\<open>EnsureDirectoryIfNotExist\<close> on the directory \<open>D\<close>: a stat, mkdir or chown
  of a path that is not the root and not longer than \<open>D\<close>.
\<close>

definition within :: "string \<Rightarrow> event \<Rightarrow> bool" where
  "within D ev =
    (case fst ev of
       SysStat p \<Rightarrow> p \<noteq> ''/'' \<and> length p \<le> length D
     | SysMkdir p m \<Rightarrow> p \<noteq> ''/'' \<and> length p \<le> length D
     | SysChown p u g \<Rightarrow> p \<noteq> ''/'' \<and> length p \<le> length D
     | _ \<Rightarrow> False)"

text \<open>
  The whole call: refused before any operation, or a first creation of the temporary
  file, then possibly the operations of \<^verbatim>\<open>EnsureDirectoryIfNotExist\<close> and a second
  creation, then the run on the file. The operations of \<^verbatim>\<open>EnsureDirectoryIfNotExist\<close>
  leave the final path alone.
\<close>

inductive WriteFile_run :: "Config \<Rightarrow> string \<Rightarrow> error option outcome \<Rightarrow> event list \<Rightarrow> bool"
  for c :: Config and name :: string where
  refused:
    "out = Panic panicDirectoryEmpty \<or> out = Panic panicDirectoryNotAbsolute
       \<or> out = Return (Some (InvalidName name)) \<Longrightarrow> WriteFile_run c name out []"
| not_created:
    "\<not> IsNotExist e \<Longrightarrow>
     WriteFile_run c name (Return (Some e))
       [(SysTempFile (Dir (Join [Directory c, name])) (getTempPattern c), Failed e)]"
| no_directory:
    "IsNotExist e \<Longrightarrow> list_all guarantor g \<Longrightarrow> plain out \<Longrightarrow> out \<noteq> Return None \<Longrightarrow>
     list_all (\<lambda>ev. \<not> touches (Join [Directory c, name]) ev) g \<Longrightarrow>
     WriteFile_run c name out
       ((SysTempFile (Dir (Join [Directory c, name])) (getTempPattern c), Failed e) # g)"
| retry_failed:
    "IsNotExist e \<Longrightarrow> list_all guarantor g \<Longrightarrow>
     list_all (\<lambda>ev. \<not> touches (Join [Directory c, name]) ev) g \<Longrightarrow>
     WriteFile_run c name (Return (Some e2))
       ((SysTempFile (Dir (Join [Directory c, name])) (getTempPattern c), Failed e) # g
          @ [(SysTempFile (Dir (Join [Directory c, name])) (getTempPattern c), Failed e2)])"
| created:
    "write_run f (Join [Directory c, name]) out evs \<Longrightarrow>
     WriteFile_run c name out
       ((SysTempFile (Dir (Join [Directory c, name])) (getTempPattern c), Created f) # evs)"
| created_on_retry:
    "IsNotExist e \<Longrightarrow> list_all guarantor g \<Longrightarrow>
     write_run f (Join [Directory c, name]) out evs \<Longrightarrow>
     list_all (\<lambda>ev. \<not> touches (Join [Directory c, name]) ev) g \<Longrightarrow>
     WriteFile_run c name out
       ((SysTempFile (Dir (Join [Directory c, name])) (getTempPattern c), Failed e) # g
          @ (SysTempFile (Dir (Join [Directory c, name])) (getTempPattern c), Created f) # evs)"

text \<open>The events that are creations of a temporary file.\<close>

definition creation :: "event \<Rightarrow> bool" where
  "creation ev = (case fst ev of SysTempFile d p \<Rightarrow> True | _ \<Rightarrow> False)"

text \<open>The first temporary file that \<open>unix\<close> hands out under the root directory.\<close>

definition tmp0 :: File where
  "tmp0 = \<lparr>Name = ''/.temp0~'', Fd = 0\<rparr>"

text \<open>
  An operating system keeps a property \<open>I\<close> of its state apart from the paths outside \<open>ok\<close>:
  a stat, a close and a failed rename never break \<open>I\<close>, a mkdir, chmod, chown or remove
  of a path in \<open>ok\<close> does not, and the creation of a temporary file does not and yields a
  name in \<open>ok\<close>. This is how "the final path keeps what it holds" is said for a run.
\<close>

definition keeps :: "'w OS \<Rightarrow> ('w \<Rightarrow> bool) \<Rightarrow> (string \<Rightarrow> bool) \<Rightarrow> bool" where
  "keeps os I ok \<longleftrightarrow>
    ((\<forall>p w. I w \<longrightarrow> I (snd (os_Stat os p w)))
   \<and> (\<forall>p m w. ok p \<longrightarrow> I w \<longrightarrow> I (snd (os_Mkdir os p m w)))
   \<and> (\<forall>p m w. ok p \<longrightarrow> I w \<longrightarrow> I (snd (os_Chmod os p m w)))
   \<and> (\<forall>p u g w. ok p \<longrightarrow> I w \<longrightarrow> I (snd (os_Chown os p u g w)))
   \<and> (\<forall>p w. ok p \<longrightarrow> I w \<longrightarrow> I (snd (os_Remove os p w)))
   \<and> (\<forall>p q w. I w \<longrightarrow> fst (os_Rename os p q w) \<noteq> None \<longrightarrow> I (snd (os_Rename os p q w)))
   \<and> (\<forall>d pat w. I w \<longrightarrow> I (snd (ioutil_TempFile os d pat w))
          \<and> (\<forall>f. fst (ioutil_TempFile os d pat w) = Inr f \<longrightarrow> ok (Name f)))
   \<and> (\<forall>f w. I w \<longrightarrow> I (snd (file_Stat os f w)))
   \<and> (\<forall>f w. I w \<longrightarrow> I (snd (file_Close os f w))))"

section \<open>Facts about the path functions\<close>

text \<open>A real path element: not empty, without a separator, neither \<^verbatim>\<open>.\<close> nor \<^verbatim>\<open>..\<close>.\<close>

definition elem_ok :: "string \<Rightarrow> bool" where
  "elem_ok e = (e \<noteq> [] \<and> (\<forall>x\<in>set e. \<not> IsPathSeparator x) \<and> e \<noteq> ''.'' \<and> e \<noteq> ''..'')"

declare clean_loop.simps [simp del]

lemma IsPathSeparator_slash [simp]: "IsPathSeparator CHR ''/''"
  by (simp add: IsPathSeparator_def)

lemma IsPathSeparator_dot [simp]: "\<not> IsPathSeparator CHR ''.''"
  by (simp add: IsPathSeparator_def)

lemma clean_loop_Nil [simp]: "clean_loop r out [] = out"
  by (simp add: clean_loop.simps)

lemma clean_loop_sep [simp]: "clean_loop r out (CHR ''/'' # rest) = clean_loop r out rest"
  by (simp add: clean_loop.simps)

lemma clean_loop_dot:
  assumes "c = CHR ''.''" "rest = [] \<or> IsPathSeparator (hd rest)"
  shows "clean_loop r out (c # rest) = clean_loop r out rest"
  using assms by (subst clean_loop.simps(2)) simp

lemma clean_loop_dotdot:
  assumes "c = CHR ''.''" "\<not> (rest = [] \<or> IsPathSeparator (hd rest))"
    "hd rest = CHR ''.''" "tl rest = [] \<or> IsPathSeparator (hd (tl rest))"
  shows "clean_loop r out (c # rest) =
    (if out \<noteq> [] \<and> last out \<noteq> ''..'' then clean_loop r (butlast out) (tl rest)
     else if \<not> r then clean_loop r (out @ [''..'']) (tl rest)
     else clean_loop r out (tl rest))"
  using assms by (subst clean_loop.simps(2)) simp

lemma clean_loop_default:
  assumes "\<not> IsPathSeparator c"
    and "\<not> (c = CHR ''.'' \<and> (rest = [] \<or> IsPathSeparator (hd rest)))"
    and "\<not> (c = CHR ''.'' \<and> hd rest = CHR ''.'' \<and> (tl rest = [] \<or> IsPathSeparator (hd (tl rest))))"
  shows "clean_loop r out (c # rest) =
    clean_loop r (out @ [takeWhile (\<lambda>x. \<not> IsPathSeparator x) (c # rest)])
      (dropWhile (\<lambda>x. \<not> IsPathSeparator x) (c # rest))"
  by (subst clean_loop.simps(2)) (simp only: assms if_False)

lemma clean_loop_cases [case_names sep dot dotdot default]:
  assumes "IsPathSeparator c \<Longrightarrow> P"
    and "c = CHR ''.'' \<Longrightarrow> rest = [] \<or> IsPathSeparator (hd rest) \<Longrightarrow> P"
    and "c = CHR ''.'' \<Longrightarrow> \<not> (rest = [] \<or> IsPathSeparator (hd rest)) \<Longrightarrow> hd rest = CHR ''.''
         \<Longrightarrow> tl rest = [] \<or> IsPathSeparator (hd (tl rest)) \<Longrightarrow> P"
    and "\<not> IsPathSeparator c \<Longrightarrow> \<not> (c = CHR ''.'' \<and> (rest = [] \<or> IsPathSeparator (hd rest)))
         \<Longrightarrow> \<not> (c = CHR ''.'' \<and> hd rest = CHR ''.'' \<and> (tl rest = [] \<or> IsPathSeparator (hd (tl rest))))
         \<Longrightarrow> P"
  shows P
  using assms by blast

lemma takeWhile_elem:
  assumes "\<forall>x\<in>set e. \<not> IsPathSeparator x" "rest = [] \<or> IsPathSeparator (hd rest)"
  shows "takeWhile (\<lambda>x. \<not> IsPathSeparator x) (e @ rest) = e"
    and "dropWhile (\<lambda>x. \<not> IsPathSeparator x) (e @ rest) = rest"
  using assms by (cases rest; simp add: takeWhile_append2 dropWhile_append2)+

lemma clean_loop_elem:
  assumes "elem_ok e" "rest = [] \<or> IsPathSeparator (hd rest)"
  shows "clean_loop r out (e @ rest) = clean_loop r (out @ [e]) rest"
proof -
  from assms(1) obtain x xs where e: "e = x # xs" and x: "\<not> IsPathSeparator x"
    and nosep: "\<forall>y\<in>set e. \<not> IsPathSeparator y"
    by (cases e) (auto simp: elem_ok_def)
  have xs: "\<forall>y\<in>set xs. \<not> IsPathSeparator y" using nosep e by simp
  have dot: "\<not> (x = CHR ''.'' \<and> (xs @ rest = [] \<or> IsPathSeparator (hd (xs @ rest))))"
  proof (cases xs)
    case Nil
    then show ?thesis using assms(1) e by (simp add: elem_ok_def)
  next
    case (Cons y ys)
    then show ?thesis using xs by simp
  qed
  have dotdot: "\<not> (x = CHR ''.'' \<and> hd (xs @ rest) = CHR ''.''
      \<and> (tl (xs @ rest) = [] \<or> IsPathSeparator (hd (tl (xs @ rest)))))"
  proof (cases xs)
    case Nil
    then show ?thesis using assms(1) e by (simp add: elem_ok_def)
  next
    case (Cons y ys)
    show ?thesis
    proof (cases ys)
      case Nil
      then show ?thesis using assms(1) e Cons by (auto simp: elem_ok_def)
    next
      case (Cons z zs)
      then show ?thesis using xs \<open>xs = y # ys\<close> by simp
    qed
  qed
  have "clean_loop r out (x # (xs @ rest)) =
      clean_loop r (out @ [takeWhile (\<lambda>x. \<not> IsPathSeparator x) (x # (xs @ rest))])
        (dropWhile (\<lambda>x. \<not> IsPathSeparator x) (x # (xs @ rest)))"
    using x dot dotdot by (intro clean_loop_default) auto
  also have "x # (xs @ rest) = e @ rest" by (simp add: e)
  finally show ?thesis
    using takeWhile_elem[OF nosep assms(2)] by simp
qed

lemma clean_loop_elems:
  "list_all elem_ok es \<Longrightarrow> clean_loop r out (join_sep es) = out @ es"
proof (induction es arbitrary: out rule: join_sep.induct)
  case 1
  then show ?case by simp
next
  case (2 x)
  then show ?case using clean_loop_elem[of x "[]" r out] by simp
next
  case (3 x y ys)
  have "clean_loop r out (x @ CHR ''/'' # join_sep (y # ys))
      = clean_loop r (out @ [x]) (CHR ''/'' # join_sep (y # ys))"
    using 3 by (intro clean_loop_elem) auto
  then show ?case using 3 by simp
qed

lemma clean_loop_elems_slash:
  "list_all elem_ok es \<Longrightarrow> clean_loop r out (join_sep es @ ''/'') = out @ es"
proof (induction es arbitrary: out rule: join_sep.induct)
  case 1
  then show ?case by simp
next
  case (2 x)
  then show ?case using clean_loop_elem[of x "''/''" r out] by simp
next
  case (3 x y ys)
  have "clean_loop r out (x @ CHR ''/'' # join_sep (y # ys) @ ''/'')
      = clean_loop r (out @ [x]) (CHR ''/'' # join_sep (y # ys) @ ''/'')"
    using 3 by (intro clean_loop_elem) auto
  then show ?case using 3 by simp
qed

lemma elem_ok_takeWhile:
  assumes "\<not> IsPathSeparator c"
    and "\<not> (c = CHR ''.'' \<and> (rest = [] \<or> IsPathSeparator (hd rest)))"
    and "\<not> (c = CHR ''.'' \<and> hd rest = CHR ''.'' \<and> (tl rest = [] \<or> IsPathSeparator (hd (tl rest))))"
  shows "elem_ok (takeWhile (\<lambda>x. \<not> IsPathSeparator x) (c # rest))"
proof -
  let ?t = "takeWhile (\<lambda>x. \<not> IsPathSeparator x) rest"
  have nosep: "\<forall>x\<in>set (c # ?t). \<not> IsPathSeparator x"
    using assms(1) by (auto dest: set_takeWhileD)
  have nd: "c # ?t \<noteq> ''.''"
    using assms(2) by (cases rest) (auto split: if_splits)
  have ndd: "c # ?t \<noteq> ''..''"
  proof (cases rest)
    case Nil
    then show ?thesis by simp
  next
    case (Cons y ys)
    then show ?thesis using assms(2,3) by (cases ys) (auto split: if_splits)
  qed
  show ?thesis using assms(1) nosep nd ndd by (simp add: elem_ok_def)
qed

lemma clean_loop_ok:
  "list_all elem_ok out \<Longrightarrow> list_all elem_ok (clean_loop True out p)"
proof (induction p arbitrary: out rule: length_induct)
  case (1 p)
  show ?case
  proof (cases p)
    case Nil
    then show ?thesis using 1 by simp
  next
    case (Cons c rest)
    have IH: "\<And>q o'. length q < length p \<Longrightarrow> list_all elem_ok o' \<Longrightarrow> list_all elem_ok (clean_loop True o' q)"
      using 1 by blast
    show ?thesis
    proof (cases rule: clean_loop_cases[where c = c and rest = rest])
      case sep
      then show ?thesis using IH[of rest out] 1(2) Cons by (simp add: IsPathSeparator_def)
    next
      case dot
      then show ?thesis using IH[of rest out] 1(2) Cons by (simp add: clean_loop_dot)
    next
      case dotdot
      have bl: "list_all elem_ok (butlast out)"
        using 1(2) by (auto simp: list_all_iff dest: in_set_butlastD)
      have len: "length (tl rest) < length p" using Cons by simp
      show ?thesis
        using IH[OF len bl] IH[OF len 1(2)] Cons
        by (simp add: clean_loop_dotdot[OF dotdot])
    next
      case default
      let ?e = "takeWhile (\<lambda>x. \<not> IsPathSeparator x) (c # rest)"
      let ?q = "dropWhile (\<lambda>x. \<not> IsPathSeparator x) (c # rest)"
      have ok: "list_all elem_ok (out @ [?e])"
        using 1(2) elem_ok_takeWhile[OF default] by simp
      have len: "length ?q < length p"
        using default(1) Cons by (simp add: less_Suc_eq_le length_dropWhile_le)
      show ?thesis
        using IH[OF len ok] Cons by (simp only: clean_loop_default[OF default])
    qed
  qed
qed

lemma IsAbs_iff: "IsAbs p \<longleftrightarrow> (\<exists>q. p = CHR ''/'' # q)"
  by (cases p) (auto simp: IsAbs_def HasPrefix_def)

lemma Clean_abs: "Clean (CHR ''/'' # q) = CHR ''/'' # join_sep (clean_loop True [] q)"
  by (simp add: Clean_def)

lemma join_sep_snoc: "join_sep (es @ [b]) = (if es = [] then b else join_sep es @ ''/'' @ b)"
  by (induction es rule: join_sep.induct) auto

lemma join_sep_nosep_last:
  assumes "\<forall>x\<in>set b. \<not> IsPathSeparator x"
  shows "rev (dropWhile (\<lambda>x. \<not> IsPathSeparator x) (rev (pre @ CHR ''/'' # b))) = pre @ ''/''"
proof -
  have "dropWhile (\<lambda>x. \<not> IsPathSeparator x) (rev b @ CHR ''/'' # rev pre) = CHR ''/'' # rev pre"
    using assms by (simp add: dropWhile_append3 dropWhile_eq_Nil_conv)
  then show ?thesis by simp
qed

lemma Dir_clean:
  assumes "list_all elem_ok (es @ [b])"
  shows "Dir (CHR ''/'' # join_sep (es @ [b])) = CHR ''/'' # join_sep es"
proof -
  have b: "\<forall>x\<in>set b. \<not> IsPathSeparator x" and es: "list_all elem_ok es"
    using assms by (auto simp: elem_ok_def)
  show ?thesis
  proof (cases "es = []")
    case True
    have "rev (dropWhile (\<lambda>x. \<not> IsPathSeparator x) (rev ([] @ CHR ''/'' # b))) = [] @ ''/''"
      using b by (rule join_sep_nosep_last)
    then show ?thesis using True by (simp add: Dir_def Clean_abs)
  next
    case False
    have "rev (dropWhile (\<lambda>x. \<not> IsPathSeparator x) (rev ((CHR ''/'' # join_sep es) @ CHR ''/'' # b)))
        = (CHR ''/'' # join_sep es) @ ''/''"
      using b by (rule join_sep_nosep_last)
    then show ?thesis
      using False clean_loop_elems_slash[OF es, of True "[]"]
      by (simp add: Dir_def Clean_abs join_sep_snoc)
  qed
qed

lemma Base_clean:
  assumes "list_all elem_ok (es @ [b])"
  shows "Base (CHR ''/'' # join_sep (es @ [b])) = b"
proof -
  have b: "\<forall>x\<in>set b. \<not> IsPathSeparator x" and ne: "b \<noteq> []"
    using assms by (auto simp: elem_ok_def)
  obtain pre where pre: "CHR ''/'' # join_sep (es @ [b]) = pre @ CHR ''/'' # b"
    by (cases "es = []") (auto simp: join_sep_snoc)
  have l: "\<not> IsPathSeparator (last b)" using b ne by simp
  have d: "dropWhile IsPathSeparator (rev b @ CHR ''/'' # rev pre) = rev b @ CHR ''/'' # rev pre"
    using l ne by (simp add: dropWhile_eq_self_iff hd_rev)
  have t: "takeWhile (\<lambda>x. \<not> IsPathSeparator x) (rev b @ CHR ''/'' # rev pre) = rev b"
    using b by (intro takeWhile_elem(1)) simp_all
  show ?thesis
    unfolding pre Base_def using d t ne by simp
qed

lemma Clean_clean:
  assumes "list_all elem_ok es"
  shows "Clean (CHR ''/'' # join_sep es) = CHR ''/'' # join_sep es"
  using clean_loop_elems[OF assms, of True "[]"] by (simp add: Clean_abs)

lemma Dir_root: "Dir ''/'' = ''/''"
  by (simp add: Dir_def Clean_def)

lemma WriteFile_recursion_settles:
  assumes D: "D \<noteq> []" "IsAbs D"
    and pre: "HasPrefix (Dir (Join [D, name])) (D @ ''/'')"
  shows "Dir (Join [Dir (Join [D, name]), Base (Join [D, name])]) = Dir (Join [D, name])"
    and "Dir (Join [D, name]) \<noteq> []" and "IsAbs (Dir (Join [D, name]))"
    and "\<not> IsAbs (Base (Join [D, name]))"
    and "Join [Dir (Join [D, name]), Base (Join [D, name])] = Join [D, name]"
proof -
  obtain q where q: "D = CHR ''/'' # q" using D by (auto simp: IsAbs_iff)
  define es where "es = clean_loop True [] (q @ CHR ''/'' # name)"
  have ok: "list_all elem_ok es" unfolding es_def by (rule clean_loop_ok) simp
  have full: "Join [D, name] = CHR ''/'' # join_sep es"
    using D by (simp add: q Clean_abs es_def)
  have "es \<noteq> []"
  proof
    assume "es = []"
    then have "Dir (Join [D, name]) = ''/''" using full by (simp add: Dir_root)
    then show False using pre D by (simp add: HasPrefix_def q)
  qed
  then obtain es' b where es: "es = es' @ [b]" by (metis rev_exhaust)
  have ok': "list_all elem_ok es'" and okb: "elem_ok b" using ok es by auto
  have dir': "Dir (CHR ''/'' # join_sep es) = CHR ''/'' # join_sep es'"
    using Dir_clean ok es by simp
  have dir: "Dir (Join [D, name]) = CHR ''/'' # join_sep es'"
    using dir' by (simp only: full)
  have base: "Base (Join [D, name]) = b"
    using Base_clean ok es by (simp only: full)
  have "Join [CHR ''/'' # join_sep es', b] = Clean (CHR ''/'' # join_sep es' @ CHR ''/'' # b)"
    by simp
  also have "\<dots> = CHR ''/'' # join_sep es"
  proof (cases "es' = []")
    case True
    then show ?thesis using clean_loop_elem[OF okb, of "[]" True "[]"] es
      by (simp add: Clean_abs)
  next
    case False
    then have "CHR ''/'' # join_sep es' @ CHR ''/'' # b = CHR ''/'' # join_sep es"
      by (simp add: es join_sep_snoc)
    then show ?thesis using Clean_clean[OF ok] by simp
  qed
  finally have J: "Join [CHR ''/'' # join_sep es', b] = CHR ''/'' # join_sep es" .
  show "Dir (Join [Dir (Join [D, name]), Base (Join [D, name])]) = Dir (Join [D, name])"
    unfolding dir base J by (rule dir')
  show "Join [Dir (Join [D, name]), Base (Join [D, name])] = Join [D, name]"
    unfolding dir base J by (simp only: full)
  show "Dir (Join [D, name]) \<noteq> []" unfolding dir by simp
  show "IsAbs (Dir (Join [D, name]))" unfolding dir by (simp add: IsAbs_iff)
  show "\<not> IsAbs (Base (Join [D, name]))"
    unfolding base using okb by (cases b) (auto simp: IsAbs_iff elem_ok_def)
qed

lemma length_join_sep_snoc:
  "length (join_sep (out @ [e])) = length (join_sep out) + length e + (if out = [] then 0 else 1)"
  by (simp add: join_sep_snoc)

lemma length_join_sep_butlast: "length (join_sep (butlast out)) \<le> length (join_sep out)"
proof (cases "out = []")
  case True
  then show ?thesis by simp
next
  case False
  then have "out = butlast out @ [last out]" by simp
  then have "length (join_sep out) = length (join_sep (butlast out @ [last out]))" by simp
  then show ?thesis by (simp only: length_join_sep_snoc)
qed

lemma clean_loop_length:
  "length (join_sep (clean_loop True out q)) + (if q \<noteq> [] \<and> IsPathSeparator (last q) then 1 else 0)
    \<le> length (join_sep out) + length q + (if out = [] \<or> q = [] \<or> IsPathSeparator (hd q) then 0 else 1)"
proof (induction q arbitrary: out rule: length_induct)
  case (1 q)
  show ?case
  proof (cases q)
    case Nil
    then show ?thesis by simp
  next
    case (Cons c rest)
    have IH: "\<And>p o'. length p < length q \<Longrightarrow>
      length (join_sep (clean_loop True o' p)) + (if p \<noteq> [] \<and> IsPathSeparator (last p) then 1 else 0)
        \<le> length (join_sep o') + length p + (if o' = [] \<or> p = [] \<or> IsPathSeparator (hd p) then 0 else 1)"
      using 1 by blast
    show ?thesis
    proof (cases rule: clean_loop_cases[where c = c and rest = rest])
      case sep
      then have c: "c = CHR ''/''" by (simp add: IsPathSeparator_def)
      have l: "(if q \<noteq> [] \<and> IsPathSeparator (last q) then 1 else 0)
            \<le> (if rest \<noteq> [] \<and> IsPathSeparator (last rest) then 1 else (0::nat)) + (if rest = [] then 1 else 0)"
        using Cons by simp
      have k: "(if out = [] \<or> rest = [] \<or> IsPathSeparator (hd rest) then 0 else 1) + (if rest = [] then 1 else 0) \<le> (1::nat)"
        by simp
      have lq: "length q = length rest + 1" using Cons by simp
      have res: "clean_loop True out q = clean_loop True out rest" using Cons c by simp
      show ?thesis using IH[of rest out] l k lq unfolding res by linarith
    next
      case dot
      have res: "clean_loop True out q = clean_loop True out rest"
        using Cons dot by (simp add: clean_loop_dot)
      have lq: "length q = length rest + 1" using Cons by simp
      have l: "(if q \<noteq> [] \<and> IsPathSeparator (last q) then 1 else 0)
            \<le> (if rest \<noteq> [] \<and> IsPathSeparator (last rest) then 1 else (0::nat))"
        using Cons dot by simp
      have k: "(if out = [] \<or> rest = [] \<or> IsPathSeparator (hd rest) then 0 else 1) = (0::nat)"
        using dot by simp
      show ?thesis using IH[of rest out] l k lq unfolding res by linarith
    next
      case dotdot
      have len: "length (tl rest) < length q" using Cons by simp
      have tl: "tl rest = [] \<or> IsPathSeparator (hd (tl rest))" using dotdot by simp
      have r: "length rest = Suc (length (tl rest))" using dotdot by (cases rest) auto
      have k: "(if o' = [] \<or> tl rest = [] \<or> IsPathSeparator (hd (tl rest)) then 0 else 1) = (0::nat)" for o' :: "string list"
        using tl by simp
      have a: "length (join_sep (clean_loop True (butlast out) (tl rest)))
                 + (if tl rest \<noteq> [] \<and> IsPathSeparator (last (tl rest)) then 1 else 0)
               \<le> length (join_sep out) + length (tl rest)"
        using IH[OF len, of "butlast out"] k[of "butlast out"] length_join_sep_butlast[of out]
        by linarith
      have b: "length (join_sep (clean_loop True out (tl rest)))
                 + (if tl rest \<noteq> [] \<and> IsPathSeparator (last (tl rest)) then 1 else 0)
               \<le> length (join_sep out) + length (tl rest)"
        using IH[OF len, of out] k[of out] by linarith
      have l: "(if q \<noteq> [] \<and> IsPathSeparator (last q) then 1 else 0)
            \<le> (if tl rest \<noteq> [] \<and> IsPathSeparator (last (tl rest)) then 1 else (0::nat))"
        using Cons dotdot by (cases rest; cases "tl rest") (simp_all split: if_splits)
      have lq: "length q = length (tl rest) + 2" using r Cons by simp
      have res: "length (join_sep (clean_loop True out q))
                 + (if tl rest \<noteq> [] \<and> IsPathSeparator (last (tl rest)) then 1 else 0)
               \<le> length (join_sep out) + length (tl rest)"
      proof (cases "out \<noteq> [] \<and> last out \<noteq> ''..''")
        case True
        have "clean_loop True out q = clean_loop True (butlast out) (tl rest)"
          unfolding Cons clean_loop_dotdot[OF dotdot] using True by simp
        then show ?thesis using a by (simp only:)
      next
        case False
        have "clean_loop True out q = clean_loop True out (tl rest)"
          unfolding Cons clean_loop_dotdot[OF dotdot] using False by auto
        then show ?thesis using b by (simp only:)
      qed
      show ?thesis using res l lq by linarith
    next
      case default
      let ?e = "takeWhile (\<lambda>x. \<not> IsPathSeparator x) (c # rest)"
      let ?p = "dropWhile (\<lambda>x. \<not> IsPathSeparator x) (c # rest)"
      have split: "c # rest = ?e @ ?p" by simp
      have lenq: "length q = length ?e + length ?p"
        unfolding Cons by (subst split) (simp only: length_append)
      have len: "length ?p < length q"
        using default(1) Cons by (simp add: less_Suc_eq_le length_dropWhile_le)
      have hd: "?p = [] \<or> IsPathSeparator (hd ?p)"
        using hd_dropWhile[of "\<lambda>x. \<not> IsPathSeparator x" "c # rest"] by blast
      have k: "(if out @ [?e] = [] \<or> ?p = [] \<or> IsPathSeparator (hd ?p) then 0 else 1) = (0::nat)"
        using hd by simp
      have last: "(if q \<noteq> [] \<and> IsPathSeparator (last q) then 1 else 0)
            \<le> (if ?p \<noteq> [] \<and> IsPathSeparator (last ?p) then 1 else (0::nat))"
      proof (cases "q \<noteq> [] \<and> IsPathSeparator (last q)")
        case False
        then have "(if q \<noteq> [] \<and> IsPathSeparator (last q) then 1 else 0) = (0::nat)" by auto
        then show ?thesis by (simp only: le0)
      next
        case a: True
        have ne: "?p \<noteq> []"
        proof
          assume "?p = []"
          then have "\<forall>x\<in>set (c # rest). \<not> IsPathSeparator x"
            by (simp only: dropWhile_eq_Nil_conv)
          moreover have "last q \<in> set (c # rest)" using Cons by (metis last_in_set list.distinct(1))
          ultimately show False using a by blast
        qed
        moreover have "last (c # rest) = last ?p"
          using ne by (subst split) (simp only: last_append if_False)
        ultimately show ?thesis using a Cons by simp
      qed
      have k2: "(if out = [] \<or> q = [] \<or> IsPathSeparator (hd q) then 0 else 1) = (if out = [] then 0 else (1::nat))"
        using default(1) Cons by simp
      have res: "clean_loop True out q = clean_loop True (out @ [?e]) ?p"
        unfolding Cons by (rule clean_loop_default[OF default])
      show ?thesis
        using IH[OF len, of "out @ [?e]"] k last lenq length_join_sep_snoc[of out ?e]
        unfolding res k2 by linarith
    qed
  qed
qed

lemma Dir_shorter:
  assumes "IsAbs d" "d \<noteq> ''/''"
  shows "length (Dir d) < length d"
proof -
  let ?P = "\<lambda>x. \<not> IsPathSeparator x"
  obtain q where d: "d = CHR ''/'' # q" using assms(1) by (auto simp: IsAbs_iff)
  define pre where "pre = rev (dropWhile ?P (rev d))"
  define b where "b = rev (takeWhile ?P (rev d))"
  have split: "d = pre @ b"
    unfolding pre_def b_def by (metis rev_append rev_rev_ident takeWhile_dropWhile_id)
  have ne: "dropWhile ?P (rev d) \<noteq> []"
    by (simp add: dropWhile_eq_Nil_conv d)
  then have pre_ne: "pre \<noteq> []" by (simp add: pre_def)
  have last: "IsPathSeparator (last pre)"
    using hd_dropWhile[OF ne] ne by (simp add: pre_def last_rev)
  have "hd pre = hd d" using split pre_ne by (metis hd_append2)
  then obtain q' where pre: "pre = CHR ''/'' # q'" using pre_ne d by (cases pre) auto
  have Dir: "Dir d = CHR ''/'' # join_sep (clean_loop True [] q')"
    unfolding Dir_def pre_def[symmetric] pre by (rule Clean_abs)
  show ?thesis
  proof (cases "q' = []")
    case True
    then have "b \<noteq> []" using split pre assms(2) by auto
    then show ?thesis using True split pre Dir by simp
  next
    case False
    then have "IsPathSeparator (last q')" using last pre by simp
    then have "length (join_sep (clean_loop True [] q')) + 1 \<le> length q'"
      using clean_loop_length[of "[]" q'] False by simp
    then show ?thesis using split pre Dir by simp
  qed
qed

termination EnsureDirectoryIfNotExist
proof (relation "measure (\<lambda>(os, c, s). length (Directory c))", goal_cases)
  case 1
  then show ?case by simp
next
  case (2 os c s x err s1 pc)
  then show ?case
    using Dir_shorter[of "Directory c"]
    by (auto simp: parentConfig_def Let_def split: if_splits)
qed

termination WriteFile
proof (relation "measure (\<lambda>(os, c, name, op, s).
          if Dir (Join [Directory c, name]) = Directory c then 0 else (1::nat))", goal_cases)
  case 1
  then show ?case by simp
next
  case (2 os c name op s fullPath dir)
  then show ?case
    using WriteFile_recursion_settles(1)[of "Directory c" name]
    by (simp del: Join.simps)
qed


declare EnsureDirectoryIfNotExist.simps [simp del] WriteFile.simps [simp del]

lemma Dir_abs_form:
  assumes "IsAbs d"
  shows "\<exists>es. list_all elem_ok es \<and> Dir d = CHR ''/'' # join_sep es"
proof -
  let ?P = "\<lambda>x. \<not> IsPathSeparator x"
  obtain q where d: "d = CHR ''/'' # q" using assms(1) by (auto simp: IsAbs_iff)
  define pre where "pre = rev (dropWhile ?P (rev d))"
  define b where "b = rev (takeWhile ?P (rev d))"
  have split: "d = pre @ b"
    unfolding pre_def b_def by (metis rev_append rev_rev_ident takeWhile_dropWhile_id)
  have ne: "dropWhile ?P (rev d) \<noteq> []"
    by (simp add: dropWhile_eq_Nil_conv d)
  then have pre_ne: "pre \<noteq> []" by (simp add: pre_def)
  have "hd pre = hd d" using split pre_ne by (metis hd_append2)
  then obtain q' where pre: "pre = CHR ''/'' # q'" using pre_ne d by (cases pre) auto
  have "Dir d = CHR ''/'' # join_sep (clean_loop True [] q')"
    unfolding Dir_def pre_def[symmetric] pre by (rule Clean_abs)
  moreover have "list_all elem_ok (clean_loop True [] q')" by (rule clean_loop_ok) simp
  ultimately show ?thesis by blast
qed

lemma clean_no_double_slash:
  assumes "list_all elem_ok es"
  shows "\<not> HasPrefix (CHR ''/'' # join_sep es) ''//''"
proof (cases es)
  case Nil
  then show ?thesis by (simp add: HasPrefix_def)
next
  case (Cons e es')
  then obtain x xs where "e = x # xs" "\<not> IsPathSeparator x"
    using assms by (cases e) (auto simp: elem_ok_def)
  then show ?thesis using Cons by (cases es') (auto simp: HasPrefix_def IsPathSeparator_def)
qed

lemma Join_abs: "IsAbs d \<Longrightarrow> IsAbs (Join [d, n])"
  by (auto simp: IsAbs_iff Clean_abs)

lemma Dir_Join_escape: "Dir (Join [''/data/app'', ''../escape.txt'']) = ''/data''"
  by (simp add: Dir_def Clean_def clean_loop.simps IsPathSeparator_def)

lemma Dir_Join_sub: "Dir (Join [''/'', ''sub/file.txt'']) = ''/sub''"
  by (simp add: Dir_def Clean_def clean_loop.simps IsPathSeparator_def)

lemma elements_from_append:
  "elements_from cur (a @ CHR ''/'' # b) = elements_from cur a @ elements_from [] b"
  by (induction a arbitrary: cur) simp_all

lemma elements_from_nonempty:
  "cur \<noteq> [] \<or> (\<exists>x\<in>set b. \<not> IsPathSeparator x) \<Longrightarrow> elements_from cur b \<noteq> []"
  by (induction b arbitrary: cur) auto

lemma last_join_sep:
  assumes "es \<noteq> []" and "last es \<noteq> []"
  shows "last (join_sep es) = last (last es)"
proof -
  have "es = butlast es @ [last es]" using assms(1) by simp
  then have "join_sep es = (if butlast es = [] then last es
                            else join_sep (butlast es) @ ''/'' @ last es)"
    using join_sep_snoc[of "butlast es" "last es"] by simp
  then show ?thesis using assms(2) by (simp split: if_splits)
qed

lemma prefix_descendant:
  assumes es: "list_all elem_ok es" and D: "D \<noteq> []"
    and pre: "HasPrefix (CHR ''/'' # join_sep es) (D @ ''/'')"
  shows "descendant (CHR ''/'' # join_sep es) D"
proof -
  let ?d = "CHR ''/'' # join_sep es"
  define rest where "rest = drop (length (D @ ''/'')) ?d"
  have d: "?d = D @ CHR ''/'' # rest"
    using pre append_take_drop_id[of "length (D @ ''/'')" ?d]
    unfolding rest_def HasPrefix_def by (metis append.assoc append_Cons append_Nil)
  have ne: "es \<noteq> []"
  proof
    assume "es = []"
    then have "length ?d = 1" by simp
    then show False using d D by (cases D) auto
  qed
  then have ok: "elem_ok (last es)" using es by (simp add: list_all_iff)
  then have l: "last es \<noteq> []" by (simp add: elem_ok_def)
  have j: "join_sep es \<noteq> []"
    using last_join_sep[OF ne l] ne l
    by (metis join_sep_snoc append_butlast_last_id append_is_Nil_conv)
  have "last ?d = last (last es)" using last_join_sep[OF ne l] j by simp
  moreover have "\<not> IsPathSeparator (last (last es))"
    using ok l by (simp add: elem_ok_def)
  ultimately have nl: "\<not> IsPathSeparator (last ?d)" by simp
  have r: "rest \<noteq> []"
  proof
    assume "rest = []"
    then have "last ?d = CHR ''/''" by (subst d) simp
    then show False using nl by simp
  qed
  then have "last ?d = last rest" by (subst d) simp
  then have "\<exists>x\<in>set rest. \<not> IsPathSeparator x" using nl r last_in_set by metis
  then have n: "elements_from [] rest \<noteq> []" by (simp add: elements_from_nonempty)
  have "elements ?d = elements D @ elements_from [] rest"
    unfolding elements_def by (subst d) (rule elements_from_append)
  then show ?thesis using n by (simp add: descendant_def)
qed

lemma not_descendant_no_prefix:
  assumes "IsAbs D" and "\<not> IsAbs name"
    and "\<not> descendant (Dir (Join [D, name])) D"
  shows "\<not> HasPrefix (Dir (Join [D, name])) (D @ ''/'')"
proof -
  have D: "D \<noteq> []" using assms(1) by (auto simp: IsAbs_iff)
  have "IsAbs (Join [D, name])" by (rule Join_abs[OF assms(1)])
  then obtain es where "list_all elem_ok es" "Dir (Join [D, name]) = CHR ''/'' # join_sep es"
    using Dir_abs_form by blast
  then show ?thesis using prefix_descendant[OF _ D] assms(3) by metis
qed

section \<open>Facts about the logged operations\<close>

lemma call_events: "call sc f s = (r, s') \<Longrightarrow> snd s' = snd s @ [(sc, answered r)]"
  by (auto simp: call_def split: prod.splits)

lemma query_events:
  "query sc ok f s = (r, s') \<Longrightarrow>
     snd s' = snd s @ [(sc, case r of Inl e \<Rightarrow> Failed e | Inr a \<Rightarrow> ok a)]"
  by (auto simp: query_def split: prod.splits)

lemma Stat_events:
  "Stat os p s = (r, s') \<Longrightarrow>
     snd s' = snd s @ [(SysStat p, case r of Inl e \<Rightarrow> Failed e | Inr a \<Rightarrow> Succeeded)]"
  unfolding Stat_def by (rule query_events)

lemma FileStat_events:
  "FileStat os f s = (r, s') \<Longrightarrow>
     snd s' = snd s @ [(SysFileStat f, case r of Inl e \<Rightarrow> Failed e | Inr a \<Rightarrow> Succeeded)]"
  unfolding FileStat_def by (rule query_events)

lemma TempFile_events:
  "TempFile os d pat s = (r, s') \<Longrightarrow>
     snd s' = snd s @ [(SysTempFile d pat, case r of Inl e \<Rightarrow> Failed e | Inr a \<Rightarrow> Created a)]"
  unfolding TempFile_def by (rule query_events)

lemma Mkdir_events: "Mkdir os p m s = (r, s') \<Longrightarrow> snd s' = snd s @ [(SysMkdir p m, answered r)]"
  unfolding Mkdir_def by (rule call_events)

lemma Chmod_events: "Chmod os p m s = (r, s') \<Longrightarrow> snd s' = snd s @ [(SysChmod p m, answered r)]"
  unfolding Chmod_def by (rule call_events)

lemma Chown_events: "Chown os p u g s = (r, s') \<Longrightarrow> snd s' = snd s @ [(SysChown p u g, answered r)]"
  unfolding Chown_def by (rule call_events)

lemma Remove_events: "Remove os p s = (r, s') \<Longrightarrow> snd s' = snd s @ [(SysRemove p, answered r)]"
  unfolding Remove_def by (rule call_events)

lemma Rename_events: "Rename os p q s = (r, s') \<Longrightarrow> snd s' = snd s @ [(SysRename p q, answered r)]"
  unfolding Rename_def by (rule call_events)

lemma FileClose_events: "FileClose os f s = (r, s') \<Longrightarrow> snd s' = snd s @ [(SysFileClose f, answered r)]"
  unfolding FileClose_def by (rule call_events)

lemma WriteOp_events: "WriteOp op f s = (r, s') \<Longrightarrow> snd s' = snd s @ [(SysWriteOp f, answered r)]"
  unfolding WriteOp_def by (rule call_events)

lemma checkOwnership_length:
  "checkOwnership os p u g msg info s = (r, s') \<Longrightarrow> length (snd s') \<le> Suc (length (snd s))"
  by (auto simp: checkOwnership_def split: option.splits if_splits prod.splits dest: Chown_events)

lemma checkOwnership_length_le:
  "Suc (length (snd s)) \<le> n \<Longrightarrow>
     length (snd (snd (checkOwnership os p u g msg info s))) \<le> n"
  using checkOwnership_length[of os p u g msg info s] 
  by (cases "checkOwnership os p u g msg info s") fastforce

lemma abs_length:
  assumes "d \<noteq> []" "IsAbs d" "d \<noteq> ''/''"
  shows "2 \<le> length d"
  using assms by (cases d; cases "tl d") (auto simp: IsAbs_iff)

lemma parentConfig_Return:
  assumes "Directory c \<noteq> []" "IsAbs (Directory c)" "Directory c \<noteq> ''/''"
  shows "parentConfig c = Return (c\<lparr>Directory := Dir (Directory c)\<rparr>)"
    and "length (Dir (Directory c)) < length (Directory c)"
    and "IsAbs (Dir (Directory c))" and "Dir (Directory c) \<noteq> []"
proof -
  show l: "length (Dir (Directory c)) < length (Directory c)"
    using Dir_shorter assms by blast
  then show "parentConfig c = Return (c\<lparr>Directory := Dir (Directory c)\<rparr>)"
    using assms by (auto simp: parentConfig_def Let_def)
  obtain es where "Dir (Directory c) = CHR ''/'' # join_sep es"
    using Dir_abs_form[OF assms(2)] by blast
  then show "IsAbs (Dir (Directory c))" "Dir (Directory c) \<noteq> []"
    by (simp_all add: IsAbs_iff)
qed

lemma EnsureDirectoryIfNotExist_length:
  "length (snd (snd (EnsureDirectoryIfNotExist os c s)))
     \<le> length (snd s) + 4 * (length (Directory c) - 1)"
proof (induction os c s rule: EnsureDirectoryIfNotExist.induct)
  case (1 os c s)
  show ?case
  proof (cases "Directory c = [] \<or> \<not> IsAbs (Directory c) \<or> Directory c = ''/''")
    case True
    then show ?thesis by (auto simp: EnsureDirectoryIfNotExist.simps)
  next
    case False
    then have v: "Directory c \<noteq> []" "IsAbs (Directory c)" "Directory c \<noteq> ''/''" by auto
    note pc = parentConfig_Return[OF v]
    have two: "2 \<le> length (Directory c)" using abs_length v by blast
    obtain r s1 where st: "Stat os (Directory c) s = (r, s1)" by (cases "Stat os (Directory c) s")
    have l1: "length (snd s1) = Suc (length (snd s))" using Stat_events[OF st] by simp
    show ?thesis
    proof (cases "\<exists>a. r = Inl a \<and> IsNotExist a")
      case False
      then show ?thesis using v st l1 two
        by (subst EnsureDirectoryIfNotExist.simps) (auto split: sum.splits)
    next
      case True
      then obtain a where a: "r = Inl a" "IsNotExist a" by blast
      let ?pc = "c\<lparr>Directory := Dir (Directory c)\<rparr>"
      have IH: "length (snd (snd (EnsureDirectoryIfNotExist os ?pc s1)))
          \<le> length (snd s1) + 4 * (length (Directory ?pc) - 1)"
        using "1.IH"[of r s1 a ?pc] v st a pc(1) by simp
      obtain o2 s2 where e: "EnsureDirectoryIfNotExist os ?pc s1 = (o2, s2)"
        by (cases "EnsureDirectoryIfNotExist os ?pc s1")
      have l2: "length (snd s2) + 3 \<le> length (snd s) + 4 * (length (Directory c) - 1)"
        using IH e l1 pc(2) two by simp
      show ?thesis
        using v st a pc(1) e l2
        by (subst EnsureDirectoryIfNotExist.simps)
           (auto split: sum.splits outcome.splits option.splits prod.splits if_splits
              dest!: Mkdir_events Stat_events intro!: checkOwnership_length_le)
    qed
  qed
qed


section \<open>Every run has the shape\<close>

lemma answered_simps [simp]: "answered None = Succeeded" "answered (Some e) = Failed e"
  by (simp_all add: answered_def)

lemma deferred_open:
  assumes "WriteFile_deferred os ((out0, Some f, Name f), s) = (out, s')"
  shows "\<exists>rc rr. snd s' = snd s @ (SysFileClose f, answered rc) # removal f rr
           \<and> out = escalate rc rr out0 \<and> (Name f = [] \<longrightarrow> rr = None)"
proof -
  obtain rc s1 where cl: "FileClose os f s = (rc, s1)" by (cases "FileClose os f s")
  note e1 = FileClose_events[OF cl]
  show ?thesis
  proof (cases "Name f = []")
    case True
    then have "snd s' = snd s @ (SysFileClose f, answered rc) # removal f None
       \<and> out = escalate rc None out0"
      using assms cl e1
      by (auto simp: WriteFile_deferred_def removal_def escalate_def split: option.splits)
    then show ?thesis using True by blast
  next
    case False
    obtain rr s2 where rm: "Remove os (Name f) s1 = (rr, s2)" by (cases "Remove os (Name f) s1")
    note e2 = Remove_events[OF rm]
    have "snd s' = snd s @ (SysFileClose f, answered rc) # removal f rr
       \<and> out = escalate rc rr out0"
      using assms cl e1 rm e2 False
      by (auto simp: WriteFile_deferred_def removal_def escalate_def split: option.splits)
    then show ?thesis using False by blast
  qed
qed

lemma deferred_closed:
  assumes "WriteFile_deferred os ((out0, None, Name f), s) = (out, s')"
  shows "\<exists>rr. snd s' = snd s @ removal f rr
           \<and> out = escalate None rr out0 \<and> (Name f = [] \<longrightarrow> rr = None)"
proof (cases "Name f = []")
  case True
  then have "snd s' = snd s @ removal f None \<and> out = escalate None None out0"
    using assms by (auto simp: WriteFile_deferred_def removal_def escalate_def)
  then show ?thesis using True by blast
next
  case False
  obtain rr s2 where rm: "Remove os (Name f) s = (rr, s2)" by (cases "Remove os (Name f) s")
  note e2 = Remove_events[OF rm]
  have "snd s' = snd s @ removal f rr \<and> out = escalate None rr out0"
    using assms rm e2 False
    by (auto simp: WriteFile_deferred_def removal_def escalate_def split: option.splits)
  then show ?thesis using False by blast
qed

lemma deferred_nothing: "WriteFile_deferred os ((out0, None, []), s) = (out0, s)"
  by (simp add: WriteFile_deferred_def)

lemma publish_run:
  assumes "WriteFile_publish os c name op f s = (x, s1)"
    and "WriteFile_deferred os (x, s1) = (out, s')"
  shows "\<exists>evs. snd s' = snd s @ evs \<and> write_run f (Join [Directory c, name]) out evs"
proof -
  obtain r5 s5 where op: "WriteOp op f s = (r5, s5)" by (cases "WriteOp op f s")
  note e5 = WriteOp_events[OF op]
  show ?thesis
  proof (cases r5)
    case (Some opErr)
    then have x: "x = (Return (Some opErr), Some f, Name f)" "s1 = s5"
      using assms(1) op by (simp_all add: WriteFile_publish_def)
    from deferred_open[OF assms(2)[unfolded x]] e5 Some
    show ?thesis by (auto intro: write_run.callback_failed)
  next
    case None
    obtain r6 s6 where cl: "FileClose os f s5 = (r6, s6)" by (cases "FileClose os f s5")
    note e6 = FileClose_events[OF cl]
    show ?thesis
    proof (cases r6)
      case (Some err)
      then have x: "x = (Return (Some err), None, Name f)" "s1 = s6"
        using assms(1) op None cl by (simp_all add: WriteFile_publish_def)
      from deferred_closed[OF assms(2)[unfolded x]] e5 e6 Some None
      show ?thesis by (auto intro: write_run.close_failed)
    next
      case n6: None
      obtain r7 s7 where rn: "Rename os (Name f) (Join [Directory c, name]) s6 = (r7, s7)"
        by (cases "Rename os (Name f) (Join [Directory c, name]) s6")
      note e7 = Rename_events[OF rn]
      show ?thesis
      proof (cases r7)
        case (Some err)
        then have x: "x = (Return (Some err), None, Name f)" "s1 = s7"
          using assms(1) op None cl n6 rn by (simp_all add: WriteFile_publish_def del: Join.simps)
        from deferred_closed[OF assms(2)[unfolded x]] e5 e6 e7 Some None n6
        show ?thesis by (auto intro: write_run.rename_failed simp del: Join.simps)
      next
        case n7: None
        then have x: "x = (Return None, None, [])" "s1 = s7"
          using assms(1) op None cl n6 rn by (simp_all add: WriteFile_publish_def del: Join.simps)
        from assms(2)[unfolded x deferred_nothing] e5 e6 e7 None n6 n7
        show ?thesis by (auto intro: write_run.renamed simp del: Join.simps)
      qed
    qed
  qed
qed


lemma case_answered [simp]:
  "case_answer s f c (answered a) = (case a of None \<Rightarrow> s | Some e \<Rightarrow> f e)"
  by (cases a) simp_all

lemma neutral_intros [simp]:
  "neutral f (SysFileStat f, case r of Inl e \<Rightarrow> Failed e | Inr a \<Rightarrow> Succeeded)"
  "neutral f (SysChmod (Name f) m, answered a)"
  "neutral f (SysChown (Name f) u g, answered a)"
  by (cases r; cases a; simp add: neutral_def)+

lemma guarantor_intros [simp]:
  "guarantor (SysStat p, case r of Inl e \<Rightarrow> Failed e | Inr a \<Rightarrow> Succeeded)"
  "guarantor (SysMkdir p m, answered a)"
  "guarantor (SysChown p u g, answered a)"
  by (cases r; cases a; simp add: guarantor_def)+

lemma write_run_prefix:
  "list_all (neutral f) pre \<Longrightarrow> write_run f t out evs \<Longrightarrow> write_run f t out (pre @ evs)"
  by (induction pre) (auto intro: write_run.prepared)

lemma checkOwnership_run:
  assumes "checkOwnership os p u g msg info s = (r, s')"
  shows "\<exists>evs. snd s' = snd s @ evs \<and> plain r
      \<and> (evs = [] \<or> (\<exists>a. evs = [(SysChown p u g, answered a)]))"
  using assms
  by (auto simp: checkOwnership_def plain_def split: option.splits if_splits prod.splits
        dest!: Chown_events)

lemma stopped_run:
  assumes "WriteFile_deferred os ((out0, Some f, Name f), s1) = (out, s')"
    and "snd s1 = snd s @ pre" and "list_all (neutral f) pre" and "plain out0"
  shows "\<exists>evs. snd s' = snd s @ evs \<and> write_run f t out evs"
proof -
  from deferred_open[OF assms(1)] obtain rc rr where
    d: "snd s' = snd s1 @ (SysFileClose f, answered rc) # removal f rr"
       "out = escalate rc rr out0" "Name f = [] \<longrightarrow> rr = None"
    by blast
  have "write_run f t out ((SysFileClose f, answered rc) # removal f rr)"
    unfolding d(2) using assms(4) d(3) by (rule write_run.stopped)
  then have "write_run f t out (pre @ (SysFileClose f, answered rc) # removal f rr)"
    using assms(3) by (rule write_run_prefix[rotated])
  then show ?thesis using d(1) assms(2) by simp
qed

lemma write_phase_run:
  assumes w: "WriteFile_write os c name op f s = (x, s1)"
    and d: "WriteFile_deferred os (x, s1) = (out, s')"
  shows "\<exists>evs. snd s' = snd s @ evs \<and> write_run f (Join [Directory c, name]) out evs"
proof -
  let ?t = "Join [Directory c, name]"
  obtain r2 s2 where fs: "FileStat os f s = (r2, s2)" by (cases "FileStat os f s")
  define n2 where "n2 = (SysFileStat f, case r2 of Inl e \<Rightarrow> Failed e | Inr a \<Rightarrow> Succeeded)"
  have e2: "snd s2 = snd s @ [n2]" unfolding n2_def by (rule FileStat_events[OF fs])
  have nn2: "neutral f n2" by (simp add: n2_def)
  show ?thesis
  proof (cases r2)
    case (Inl err)
    then have x: "x = (Return (Some err), Some f, Name f)" "s1 = s2"
      using w fs by (simp_all add: WriteFile_write_def)
    show ?thesis
      by (rule stopped_run[OF d[unfolded x] e2]) (simp_all add: nn2 plain_def)
  next
    case (Inr info)
    obtain r3 s3 where cm: "(if Mode info \<noteq> getFileMode c
        then Chmod os (Name f) (getFileMode c) s2 else (None, s2)) = (r3, s3)"
      by (cases "(if Mode info \<noteq> getFileMode c
        then Chmod os (Name f) (getFileMode c) s2 else (None, s2))")
    then obtain p3 where e3: "snd s3 = snd s @ p3" "list_all (neutral f) p3"
      using e2 nn2 by (auto split: if_splits dest!: Chmod_events)
    show ?thesis
    proof (cases r3)
      case (Some err)
      then have x: "x = (Return (Some err), Some f, Name f)" "s1 = s3"
        using w fs Inr cm by (simp_all add: WriteFile_write_def Let_def)
      show ?thesis
        by (rule stopped_run[OF d[unfolded x] e3]) (simp add: plain_def)
    next
      case None
      obtain r4 s4 where ow: "(if EnsureFileOwnership c
          then checkOwnership os (Name f) (FileUID c) (FileGID c) unableFile info s3
          else (Return None, s3)) = (r4, s4)"
        by (cases "(if EnsureFileOwnership c
          then checkOwnership os (Name f) (FileUID c) (FileGID c) unableFile info s3
          else (Return None, s3))")
      then obtain p4 where e4: "snd s4 = snd s @ p4" "list_all (neutral f) p4" and pl: "plain r4"
        using e3 by (auto simp: plain_def split: if_splits dest!: checkOwnership_run)
      show ?thesis
      proof (cases "r4 = Return None")
        case False
        then have x: "x = (r4, Some f, Name f)" "s1 = s4"
          using w fs Inr cm None ow
          by (auto simp: WriteFile_write_def Let_def split: outcome.splits option.splits)
        show ?thesis
          by (rule stopped_run[OF d[unfolded x] e4 pl])
      next
        case True
        then have "WriteFile_publish os c name op f s4 = (x, s1)"
          using w fs Inr cm None ow by (simp add: WriteFile_write_def Let_def)
        from publish_run[OF this d] obtain evs where
          "snd s' = snd s4 @ evs" "write_run f ?t out evs" by blast
        then show ?thesis
          using e4 write_run_prefix[of f p4 ?t out evs] by (auto simp del: Join.simps)
      qed
    qed
  qed
qed

lemma EnsureDirectoryIfNotExist_run:
  "EnsureDirectoryIfNotExist os c s = (r, s') \<Longrightarrow>
     \<exists>evs. snd s' = snd s @ evs \<and> list_all guarantor evs \<and> plain r
        \<and> list_all (within (Directory c)) evs"
proof (induction os c s arbitrary: r s' rule: EnsureDirectoryIfNotExist.induct)
  case (1 os c s)
  show ?case
  proof (cases "Directory c = [] \<or> \<not> IsAbs (Directory c) \<or> Directory c = ''/''")
    case True
    then consider "Directory c = []" | "Directory c \<noteq> []" "\<not> IsAbs (Directory c)"
      | "Directory c \<noteq> []" "IsAbs (Directory c)" "Directory c = ''/''" by blast
    then have "s' = s \<and> plain r"
    proof cases
      case 1
      then show ?thesis using "1.prems"
        by (auto simp: EnsureDirectoryIfNotExist.simps plain_def panicDirectoryEmpty_def)
    next
      case 2
      then show ?thesis using "1.prems"
        by (auto simp: EnsureDirectoryIfNotExist.simps plain_def panicDirectoryNotAbsolute_def)
    next
      case 3
      then show ?thesis using "1.prems"
        by (auto simp: EnsureDirectoryIfNotExist.simps[of os c s] plain_def)
    qed
    then show ?thesis by simp
  next
    case False
    then have v: "Directory c \<noteq> []" "IsAbs (Directory c)" "Directory c \<noteq> ''/''" by auto
    note pc = parentConfig_Return[OF v]
    obtain r1 s1 where st: "Stat os (Directory c) s = (r1, s1)" by (cases "Stat os (Directory c) s")
    define n1 where "n1 = (SysStat (Directory c), case r1 of Inl e \<Rightarrow> Failed e | Inr a \<Rightarrow> Succeeded)"
    have e1: "snd s1 = snd s @ [n1]" unfolding n1_def by (rule Stat_events[OF st])
    have g1: "guarantor n1" by (simp add: n1_def)
    have w1: "within (Directory c) n1" using v(3) by (simp add: n1_def within_def)
    show ?thesis
    proof (cases "\<exists>a. r1 = Inl a \<and> IsNotExist a")
      case False
      then have "s' = s1" "plain r"
        using "1.prems" v st
        by (auto simp: EnsureDirectoryIfNotExist.simps plain_def split: sum.splits)
      then show ?thesis using e1 g1 w1 by simp
    next
      case True
      then obtain a where a: "r1 = Inl a" "IsNotExist a" by blast
      let ?pc = "c\<lparr>Directory := Dir (Directory c)\<rparr>"
      obtain r2 s2 where e: "EnsureDirectoryIfNotExist os ?pc s1 = (r2, s2)"
        by (cases "EnsureDirectoryIfNotExist os ?pc s1")
      from "1.IH"[of r1 s1 a ?pc r2 s2] v st a pc(1) e
      obtain p2 where e2: "snd s2 = snd s1 @ p2" "list_all guarantor p2" and pl2: "plain r2"
        and wp: "list_all (within (Dir (Directory c))) p2"
        by auto
      have w2: "list_all (within (Directory c)) p2"
        using wp pc(2) by (auto simp: list_all_iff within_def split: syscall.splits)
      show ?thesis
      proof (cases "r2 = Return None")
        case False
        then have "r = r2" "s' = s2"
          using "1.prems" v st a pc(1) e
          by (auto simp: EnsureDirectoryIfNotExist.simps split: outcome.splits option.splits)
        then show ?thesis using e1 e2 g1 pl2 w1 w2 by simp
      next
        case r2: True
        obtain r3 s3 where mk: "Mkdir os (Directory c) (getDirectoryMode c) s2 = (r3, s3)"
          by (cases "Mkdir os (Directory c) (getDirectoryMode c) s2")
        define n3 where "n3 = (SysMkdir (Directory c) (getDirectoryMode c), answered r3)"
        have e3: "snd s3 = snd s2 @ [n3]" unfolding n3_def by (rule Mkdir_events[OF mk])
        have g3: "guarantor n3" by (simp add: n3_def)
        have w3: "within (Directory c) n3" using v(3) by (simp add: n3_def within_def)
        have "\<exists>p4. snd s' = snd s3 @ p4 \<and> list_all guarantor p4 \<and> plain r
            \<and> list_all (within (Directory c)) p4"
          using "1.prems" v st a pc(1) e r2 mk
          by (subst (asm) EnsureDirectoryIfNotExist.simps)
             (auto simp: plain_def guarantor_def within_def
                split: option.splits if_splits sum.splits prod.splits
                dest!: Stat_events checkOwnership_run)
        then show ?thesis using e1 e2 e3 g1 g3 w1 w2 w3 by auto
      qed
    qed
  qed
qed


lemma WriteFile_reduce:
  assumes "Directory c \<noteq> []" "IsAbs (Directory c)" "\<not> IsAbs name"
    and "Dir (Join [Directory c, name]) = Directory c
         \<or> HasPrefix (Dir (Join [Directory c, name])) (Directory c @ ''/'')"
  shows "\<exists>name'. Join [Dir (Join [Directory c, name]), name'] = Join [Directory c, name]
     \<and> WriteFile os c name op s
         = WriteFile_deferred os
             (WriteFile_body os (c\<lparr>Directory := Dir (Join [Directory c, name])\<rparr>) name' op s)"
proof (cases "Dir (Join [Directory c, name]) = Directory c")
  case True
  then have "WriteFile os c name op s = WriteFile_deferred os (WriteFile_body os c name op s)"
    using assms(1-3) by (simp add: WriteFile.simps[of os c name] Let_def del: Join.simps)
  moreover have "c\<lparr>Directory := Dir (Join [Directory c, name])\<rparr> = c"
    using True by simp
  ultimately show ?thesis using True by (auto simp del: Join.simps)
next
  case False
  let ?d = "Dir (Join [Directory c, name])"
  let ?b = "Base (Join [Directory c, name])"
  let ?c = "c\<lparr>Directory := ?d\<rparr>"
  have pre: "HasPrefix ?d (Directory c @ ''/'')" using assms(4) False by blast
  note L = WriteFile_recursion_settles[OF assms(1,2) pre]
  have 1: "WriteFile os c name op s = WriteFile os ?c ?b op s"
    using assms(1-3) False pre
    by (simp add: WriteFile.simps[of os c name] Let_def del: Join.simps)
  have 2: "WriteFile os ?c ?b op s = WriteFile_deferred os (WriteFile_body os ?c ?b op s)"
    using L by (simp add: WriteFile.simps[of os ?c ?b] Let_def del: Join.simps)
  show ?thesis using 1 2 L(5) by (auto simp del: Join.simps)
qed

lemma create_run:
  assumes cr: "WriteFile_create os c s = (r, s1)"
  defines "tf \<equiv> SysTempFile (Directory c) (getTempPattern c)"
  shows "(\<exists>e. \<not> IsNotExist e \<and> r = Inl (Return (Some e)) \<and> snd s1 = snd s @ [(tf, Failed e)])
    \<or> (\<exists>e g out. IsNotExist e \<and> list_all guarantor g \<and> plain out \<and> out \<noteq> Return None
           \<and> r = Inl out \<and> snd s1 = snd s @ (tf, Failed e) # g \<and> list_all (within (Directory c)) g)
    \<or> (\<exists>e g e2. IsNotExist e \<and> list_all guarantor g \<and> r = Inl (Return (Some e2))
           \<and> snd s1 = snd s @ (tf, Failed e) # g @ [(tf, Failed e2)] \<and> list_all (within (Directory c)) g)
    \<or> (\<exists>f. r = Inr f \<and> snd s1 = snd s @ [(tf, Created f)])
    \<or> (\<exists>e g f. IsNotExist e \<and> list_all guarantor g \<and> r = Inr f
           \<and> snd s1 = snd s @ (tf, Failed e) # g @ [(tf, Created f)] \<and> list_all (within (Directory c)) g)"
proof -
  obtain r1 t1 where t: "TempFile os (Directory c) (getTempPattern c) s = (r1, t1)"
    by (cases "TempFile os (Directory c) (getTempPattern c) s")
  have e1: "snd t1 = snd s @ [(tf, case r1 of Inl e \<Rightarrow> Failed e | Inr a \<Rightarrow> Created a)]"
    unfolding tf_def by (rule TempFile_events[OF t])
  show ?thesis
  proof (cases r1)
    case (Inr f)
    then have "r = Inr f" "s1 = t1" using cr t by (simp_all add: WriteFile_create_def)
    then show ?thesis using e1 Inr by simp
  next
    case (Inl e)
    show ?thesis
    proof (cases "IsNotExist e")
      case False
      then have "r = Inl (Return (Some e))" "s1 = t1"
        using cr t Inl by (simp_all add: WriteFile_create_def)
      then show ?thesis using e1 Inl False by simp
    next
      case True
      obtain r2 t2 where ed: "EnsureDirectoryIfNotExist os c t1 = (r2, t2)"
        by (cases "EnsureDirectoryIfNotExist os c t1")
      from EnsureDirectoryIfNotExist_run[OF ed] obtain g where
        g: "snd t2 = snd t1 @ g" "list_all guarantor g" "plain r2"
           "list_all (within (Directory c)) g" by blast
      show ?thesis
      proof (cases "r2 = Return None")
        case False
        then have "r = Inl r2" "s1 = t2"
          using cr t Inl True ed
          by (auto simp: WriteFile_create_def split: outcome.splits option.splits)
        then show ?thesis using e1 Inl True g False by auto
      next
        case r2: True
        obtain r3 t3 where t': "TempFile os (Directory c) (getTempPattern c) t2 = (r3, t3)"
          by (cases "TempFile os (Directory c) (getTempPattern c) t2")
        have e3: "snd t3 = snd t2 @ [(tf, case r3 of Inl e \<Rightarrow> Failed e | Inr a \<Rightarrow> Created a)]"
          unfolding tf_def by (rule TempFile_events[OF t'])
        have rs: "r = (case r3 of Inl e2 \<Rightarrow> Inl (Return (Some e2)) | Inr f \<Rightarrow> Inr f)" "s1 = t3"
          using cr t Inl True ed r2 t'
          by (auto simp: WriteFile_create_def split: sum.splits)
        show ?thesis
        proof (cases r3)
          case e2: (Inl e2)
          have "IsNotExist e \<and> list_all guarantor g \<and> r = Inl (Return (Some e2))
             \<and> snd s1 = snd s @ (tf, Failed e) # g @ [(tf, Failed e2)] \<and> list_all (within (Directory c)) g"
            using rs e1 e3 g Inl True e2 by simp
          then show ?thesis by blast
        next
          case f: (Inr f)
          have "IsNotExist e \<and> list_all guarantor g \<and> r = Inr f
             \<and> snd s1 = snd s @ (tf, Failed e) # g @ [(tf, Created f)] \<and> list_all (within (Directory c)) g"
            using rs e1 e3 g Inl True f by simp
          then show ?thesis by blast
        qed
      qed
    qed
  qed
qed

lemma within_untouched:
  assumes "IsAbs t" and "list_all guarantor g" and "list_all (within (Dir t)) g"
  shows "list_all (\<lambda>ev. \<not> touches t ev) g"
proof -
  have p: "q \<noteq> ''/'' \<Longrightarrow> length q \<le> length (Dir t) \<Longrightarrow> q \<noteq> t" for q
    using Dir_shorter[OF assms(1)] by (cases "t = ''/''") auto
  have "\<not> touches t ev" if "guarantor ev" "within (Dir t) ev" for ev
    using that p
    by (cases ev)
       (auto simp: touches_def guarantor_def within_def split: syscall.splits answer.splits)
  then show ?thesis using assms(2,3) by (simp add: list_all_iff)
qed

lemma body_run:
  assumes "WriteFile_deferred os (WriteFile_body os c' name' op s) = (out, s')"
    and "Directory c' = Dir (Join [Directory c, name])" "getTempPattern c' = getTempPattern c"
    and "Join [Directory c', name'] = Join [Directory c, name]"
    and abs: "IsAbs (Join [Directory c, name])"
  shows "\<exists>tr. snd s' = snd s @ tr \<and> WriteFile_run c name out tr"
proof -
  obtain r s1 where cr: "WriteFile_create os c' s = (r, s1)"
    by (cases "WriteFile_create os c' s")
  let ?tf = "SysTempFile (Dir (Join [Directory c, name])) (getTempPattern c)"
  note shape = create_run[OF cr, unfolded assms(2,3)]
  show ?thesis
  proof (cases r)
    case (Inl out0)
    then have "WriteFile_body os c' name' op s = ((out0, None, []), s1)"
      using cr by (simp add: WriteFile_body_def)
    then have o: "out = out0" "s' = s1" using assms(1) by (simp_all add: deferred_nothing)
    from shape Inl have
      "(\<exists>e. \<not> IsNotExist e \<and> out0 = Return (Some e) \<and> snd s1 = snd s @ [(?tf, Failed e)])
       \<or> (\<exists>e g. IsNotExist e \<and> list_all guarantor g \<and> plain out0 \<and> out0 \<noteq> Return None
             \<and> snd s1 = snd s @ (?tf, Failed e) # g \<and> list_all (\<lambda>ev. \<not> touches (Join [Directory c, name]) ev) g)
       \<or> (\<exists>e g e2. IsNotExist e \<and> list_all guarantor g \<and> out0 = Return (Some e2)
             \<and> snd s1 = snd s @ (?tf, Failed e) # g @ [(?tf, Failed e2)] \<and> list_all (\<lambda>ev. \<not> touches (Join [Directory c, name]) ev) g)"
      using within_untouched[OF abs] by (auto simp del: Join.simps)
    then show ?thesis
      unfolding o
      by (elim disjE exE conjE)
         (auto simp del: Join.simps
            intro: WriteFile_run.not_created WriteFile_run.no_directory WriteFile_run.retry_failed)
  next
    case (Inr f)
    then have "WriteFile_body os c' name' op s = WriteFile_write os c' name' op f s1"
      using cr by (simp add: WriteFile_body_def)
    then obtain x s2 where w: "WriteFile_write os c' name' op f s1 = (x, s2)"
      and d: "WriteFile_deferred os (x, s2) = (out, s')"
      using assms(1) by (cases "WriteFile_write os c' name' op f s1") auto
    from write_phase_run[OF w d] obtain evs where
      evs: "snd s' = snd s1 @ evs" "write_run f (Join [Directory c, name]) out evs"
      unfolding assms(4) by blast
    from shape Inr have
      "snd s1 = snd s @ [(?tf, Created f)]
       \<or> (\<exists>e g. IsNotExist e \<and> list_all guarantor g
             \<and> snd s1 = snd s @ (?tf, Failed e) # g @ [(?tf, Created f)] \<and> list_all (\<lambda>ev. \<not> touches (Join [Directory c, name]) ev) g)"
      using within_untouched[OF abs] by (auto simp del: Join.simps)
    then show ?thesis
      using evs
      by (elim disjE exE conjE)
         (auto simp del: Join.simps
            intro: WriteFile_run.created WriteFile_run.created_on_retry)
  qed
qed

lemma WriteFile_traces:
  assumes "WriteFile os c name op s = (out, s')"
  shows "\<exists>tr. snd s' = snd s @ tr \<and> WriteFile_run c name out tr"
proof -
  consider "Directory c = []" | "Directory c \<noteq> []" "\<not> IsAbs (Directory c)"
    | "Directory c \<noteq> []" "IsAbs (Directory c)" "IsAbs name"
    | "Directory c \<noteq> []" "IsAbs (Directory c)" "\<not> IsAbs name"
      "Dir (Join [Directory c, name]) \<noteq> Directory c"
      "\<not> HasPrefix (Dir (Join [Directory c, name])) (Directory c @ ''/'')"
    | "Directory c \<noteq> []" "IsAbs (Directory c)" "\<not> IsAbs name"
      "Dir (Join [Directory c, name]) = Directory c
         \<or> HasPrefix (Dir (Join [Directory c, name])) (Directory c @ ''/'')"
    by blast
  then show ?thesis
  proof cases
    case 1
    then have "out = Panic panicDirectoryEmpty" "s' = s"
      using assms by (auto simp: WriteFile.simps[of os c name])
    then show ?thesis by (auto intro: WriteFile_run.refused)
  next
    case 2
    then have "out = Panic panicDirectoryNotAbsolute" "s' = s"
      using assms by (auto simp: WriteFile.simps[of os c name])
    then show ?thesis by (auto intro: WriteFile_run.refused)
  next
    case 3
    then have "out = Return (Some (InvalidName name))" "s' = s"
      using assms by (auto simp: WriteFile.simps[of os c name])
    then show ?thesis by (auto intro: WriteFile_run.refused)
  next
    case 4
    then have "out = Return (Some (InvalidName name))" "s' = s"
      using assms by (auto simp: WriteFile.simps[of os c name] Let_def simp del: Join.simps)
    then show ?thesis by (auto intro: WriteFile_run.refused)
  next
    case 5
    from WriteFile_reduce[OF 5, of os op s] obtain name' where
      n: "Join [Dir (Join [Directory c, name]), name'] = Join [Directory c, name]"
      and w: "WriteFile os c name op s = WriteFile_deferred os
             (WriteFile_body os (c\<lparr>Directory := Dir (Join [Directory c, name])\<rparr>) name' op s)"
      by blast
    show ?thesis
      by (rule body_run[OF assms[unfolded w]])
         (simp_all add: getTempPattern_def n Join_abs[OF 5(2)] del: Join.simps)
  qed
qed









lemma write_run_callback_failed:
  "write_run f t out evs \<Longrightarrow> (SysWriteOp g, Failed e) \<in> set evs \<Longrightarrow>
     g = f \<and> (\<forall>a b r. (SysRename a b, r) \<notin> set evs)
     \<and> (\<exists>before closeErr cleanupErr.
           evs = before @ (SysWriteOp f, Failed e) # (SysFileClose f, answered closeErr)
                   # removal f cleanupErr
           \<and> list_all (neutral f) before
           \<and> (Name f = [] \<longrightarrow> cleanupErr = None)
           \<and> out = escalate closeErr cleanupErr (Return (Some e)))"
proof (induction rule: write_run.induct)
  case (prepared ev out evs)
  then have m: "(SysWriteOp g, Failed e) \<in> set evs"
    by (auto simp: neutral_def split: syscall.splits)
  from prepared.IH[OF m] obtain before closeErr cleanupErr where
    *: "g = f" "\<forall>a b r. (SysRename a b, r) \<notin> set evs"
       "evs = before @ (SysWriteOp f, Failed e) # (SysFileClose f, answered closeErr)
                   # removal f cleanupErr"
       "list_all (neutral f) before" "Name f = [] \<longrightarrow> cleanupErr = None"
       "out = escalate closeErr cleanupErr (Return (Some e))"
    by blast
  have "ev # evs = (ev # before) @ (SysWriteOp f, Failed e) # (SysFileClose f, answered closeErr)
                   # removal f cleanupErr" using *(3) by simp
  moreover have "list_all (neutral f) (ev # before)" using *(4) prepared(1) by simp
  moreover have "\<forall>a b r. (SysRename a b, r) \<notin> set (ev # evs)"
    using *(2) prepared(1) by (auto simp: neutral_def split: syscall.splits)
  ultimately show ?case using * by blast
next
  case (callback_failed rr rc e')
  then have eq: "e' = e" "g = f"
    by (auto simp: removal_def answered_def split: if_splits option.splits)
  have nr: "\<forall>a b r. (SysRename a b, r) \<notin> set ((SysWriteOp f, Failed e')
      # (SysFileClose f, answered rc) # removal f rr)"
    by (auto simp: removal_def)
  have "(SysWriteOp f, Failed e') # (SysFileClose f, answered rc) # removal f rr
      = [] @ (SysWriteOp f, Failed e) # (SysFileClose f, answered rc) # removal f rr
    \<and> list_all (neutral f) []
    \<and> (Name f = [] \<longrightarrow> rr = None)
    \<and> escalate rc rr (Return (Some e')) = escalate rc rr (Return (Some e))"
    using eq callback_failed(1) by simp
  then show ?case using eq nr by blast
qed (auto simp: removal_def answered_def split: if_splits option.splits)


lemma guarantor_not [simp]:
  "guarantor (SysWriteOp f, a) = False" "guarantor (SysFileClose f, a) = False"
  "guarantor (SysRemove p, a) = False" "guarantor (SysRename p q, a) = False"
  "guarantor (SysTempFile d pat, a) = False" "guarantor (sc, Created f) = False"
  by (simp_all add: guarantor_def split: syscall.splits)

lemma guarantor_mem:
  "list_all guarantor g \<Longrightarrow> (sc, a) \<in> set g \<Longrightarrow> guarantor (sc, a)"
  by (simp add: list_all_iff)

lemma escalate_Return:
  "escalate closeErr cleanupErr (Return (Some e)) = Return (Some e)
     \<longleftrightarrow> closeErr = None \<and> (\<forall>x. cleanupErr = Some x \<longrightarrow> IsNotExist x)"
  by (auto simp: escalate_def split: option.splits)

lemma WriteFile_run_callback_failed:
  assumes "WriteFile_run c name out tr" and "(SysWriteOp f, Failed e) \<in> set tr"
  shows "(\<forall>a b r. (SysRename a b, r) \<notin> set tr)
     \<and> (\<exists>before closeErr cleanupErr.
          tr = before @ (SysWriteOp f, Failed e) # (SysFileClose f, answered closeErr)
                 # removal f cleanupErr
          \<and> out = escalate closeErr cleanupErr (Return (Some e)))"
  using assms
proof (cases rule: WriteFile_run.cases)
  case (created f' evs)
  then have m: "(SysWriteOp f, Failed e) \<in> set evs" using assms(2) by auto
  from write_run_callback_failed[OF created(2) m] obtain before closeErr cleanupErr where
    *: "f = f'" "\<forall>a b r. (SysRename a b, r) \<notin> set evs"
       "evs = before @ (SysWriteOp f', Failed e) # (SysFileClose f', answered closeErr)
                   # removal f' cleanupErr"
       "out = escalate closeErr cleanupErr (Return (Some e))" by blast
  let ?tf = "(SysTempFile (Dir (Join [Directory c, name])) (getTempPattern c), Created f')"
  have "tr = (?tf # before) @ (SysWriteOp f, Failed e) # (SysFileClose f, answered closeErr)
                   # removal f cleanupErr"
    using created(1) *(1,3) by simp
  moreover have "\<forall>a b r. (SysRename a b, r) \<notin> set tr" using created(1) *(2) by auto
  ultimately show ?thesis using *(4) by blast
next
  case (created_on_retry e0 g f' evs)
  have ng: "(SysWriteOp f, Failed e) \<notin> set g"
    using guarantor_mem[OF created_on_retry(3)] by fastforce
  then have m: "(SysWriteOp f, Failed e) \<in> set evs" using assms(2) created_on_retry(1) by auto
  from write_run_callback_failed[OF created_on_retry(4) m] obtain before closeErr cleanupErr where
    *: "f = f'" "\<forall>a b r. (SysRename a b, r) \<notin> set evs"
       "evs = before @ (SysWriteOp f', Failed e) # (SysFileClose f', answered closeErr)
                   # removal f' cleanupErr"
       "out = escalate closeErr cleanupErr (Return (Some e))" by blast
  let ?tf = "SysTempFile (Dir (Join [Directory c, name])) (getTempPattern c)"
  have "tr = ((?tf, Failed e0) # g @ (?tf, Created f') # before)
               @ (SysWriteOp f, Failed e) # (SysFileClose f, answered closeErr)
                   # removal f cleanupErr"
    using created_on_retry(1) *(1,3) by simp
  moreover have "\<forall>a b r. (SysRename a b, r) \<notin> set g"
    using guarantor_mem[OF created_on_retry(3)] by fastforce
  then have "\<forall>a b r. (SysRename a b, r) \<notin> set tr" using created_on_retry(1) *(2) by auto
  ultimately show ?thesis using *(4) by blast
next
  case (no_directory e0 g)
  then show ?thesis using assms(2) guarantor_mem[OF no_directory(3)] by fastforce
next
  case (retry_failed e0 g e2)
  then show ?thesis using assms(2) guarantor_mem[OF retry_failed(4)] by fastforce
qed (use assms(2) in auto)

lemma write_run_untouched:
  assumes "write_run f t out evs" and "(SysWriteOp g, Failed e) \<in> set evs" and "Name f \<noteq> p"
  shows "\<forall>ev\<in>set evs. \<not> touches p ev"
proof -
  from write_run_callback_failed[OF assms(1,2)] obtain before closeErr cleanupErr where
    evs: "evs = before @ (SysWriteOp f, Failed e) # (SysFileClose f, answered closeErr)
                   # removal f cleanupErr"
    and n: "list_all (neutral f) before" by blast
  have "\<not> touches p ev" if "neutral f ev" for ev
    using that assms(3)
    by (cases ev) (auto simp: neutral_def touches_def split: syscall.splits answer.splits)
  then have "\<forall>ev\<in>set before. \<not> touches p ev" using n by (simp add: list_all_iff)
  moreover have "\<forall>ev\<in>set ((SysWriteOp f, Failed e) # (SysFileClose f, answered closeErr)
                   # removal f cleanupErr). \<not> touches p ev"
    using assms(3) by (auto simp: touches_def removal_def answered_def split: option.splits)
  ultimately show ?thesis unfolding evs by auto
qed

lemma WriteFile_run_untouched:
  assumes "WriteFile_run c name out tr" and "(SysWriteOp f, Failed e) \<in> set tr"
    and "Name f \<noteq> Join [Directory c, name]"
  shows "\<forall>ev\<in>set tr. \<not> touches (Join [Directory c, name]) ev"
  using assms(1)
proof (cases rule: WriteFile_run.cases)
  case (created f' evs)
  then have m: "(SysWriteOp f, Failed e) \<in> set evs" using assms(2) by auto
  have f: "f = f'" using write_run_callback_failed[OF created(2) m] by blast
  have "\<forall>ev\<in>set evs. \<not> touches (Join [Directory c, name]) ev"
    by (rule write_run_untouched[OF created(2) m]) (use assms(3) f in simp)
  moreover have "\<not> touches (Join [Directory c, name])
      (SysTempFile (Dir (Join [Directory c, name])) (getTempPattern c), Created f')"
    using assms(3) f by (simp add: touches_def)
  ultimately show ?thesis unfolding created(1) by (simp del: Join.simps)
next
  case (created_on_retry e0 g f' evs)
  have ng: "(SysWriteOp f, Failed e) \<notin> set g"
    using guarantor_mem[OF created_on_retry(3)] by fastforce
  then have m: "(SysWriteOp f, Failed e) \<in> set evs" using assms(2) created_on_retry(1) by auto
  have f: "f = f'" using write_run_callback_failed[OF created_on_retry(4) m] by blast
  have "\<forall>ev\<in>set evs. \<not> touches (Join [Directory c, name]) ev"
    by (rule write_run_untouched[OF created_on_retry(4) m]) (use assms(3) f in simp)
  moreover have "\<not> touches (Join [Directory c, name])
      (SysTempFile (Dir (Join [Directory c, name])) (getTempPattern c), a)"
    if "a = Created f' \<or> a = Failed e0" for a
    using that assms(3) f by (auto simp: touches_def)
  moreover have "\<forall>ev\<in>set g. \<not> touches (Join [Directory c, name]) ev"
    using created_on_retry(5) by (simp add: list_all_iff)
  ultimately show ?thesis unfolding created_on_retry(1) by (auto simp del: Join.simps)
next
  case (no_directory e0 g)
  then show ?thesis using assms(2) guarantor_mem[OF no_directory(3)] by fastforce
next
  case (retry_failed e0 g e2)
  then show ?thesis using assms(2) guarantor_mem[OF retry_failed(4)] by fastforce
qed (use assms(2) in auto)

lemma guarantor_filter_close:
  "list_all guarantor g \<Longrightarrow> filter (\<lambda>ev. fst ev = SysFileClose f) g = []"
  by (induction g) (auto simp: guarantor_def split: syscall.splits)






lemma creation_simps [simp]: "creation (SysTempFile d p, a)"
  by (simp add: creation_def)

lemma guarantor_no_creation: "list_all guarantor g \<Longrightarrow> filter creation g = []"
  by (induction g) (auto simp: guarantor_def creation_def split: syscall.splits)

lemma write_run_no_creations: "write_run f t out evs \<Longrightarrow> filter creation evs = []"
  by (induction rule: write_run.induct)
     (auto simp: removal_def neutral_def creation_def split: syscall.splits)

lemma WriteFile_run_creations:
  "WriteFile_run c name out tr \<Longrightarrow> length (filter creation tr) \<le> 2"
  by (induction rule: WriteFile_run.induct)
     (auto simp: guarantor_no_creation write_run_no_creations simp del: Join.simps)

lemma getTempPattern_Directory [simp]: "getTempPattern (c\<lparr>Directory := d\<rparr>) = getTempPattern c"
  by (simp add: getTempPattern_def)


section \<open>Facts about the file system\<close>

lemma chmodBits_ModeDir: "(x AND chmodBits) AND ModeDir = 0"
  by (simp add: chmodBits_def ModeDir_def and.assoc)

lemma ModeDir_nonzero: "ModeDir \<noteq> 0"
  by (simp add: ModeDir_def)

lemma not_dir_mismatch:
  assumes "m AND ModeDir = 0"
  shows "m \<noteq> x OR ModeDir"
proof
  assume "m = x OR ModeDir"
  then have "m AND ModeDir = (x OR ModeDir) AND ModeDir" by simp
  also have "\<dots> = ModeDir" by (simp add: bit_eq_iff bit_and_iff bit_or_iff)
  finally show False using assms ModeDir_nonzero by simp
qed

lemma lookup_store: "lookup (store p n w) q = (if Clean q = Clean p then Some n else lookup w q)"
  by (simp add: lookup_def store_def update_conv')

lemma unix_Stat_found:
  "lookup w p = Some n \<Longrightarrow>
     Stat unix p (w, tr) = (Inr (info_of n), (w, tr @ [(SysStat p, Succeeded)]))"
  by (simp add: Stat_def query_def unix_def fs_Stat_def)

lemma unix_Stat_Inr:
  assumes "Stat unix p s = (Inr info, s')"
  shows "fst s' = fst s \<and> (\<exists>n. lookup (fst s) p = Some n \<and> info = info_of n)"
  using assms
  by (auto simp: Stat_def query_def unix_def fs_Stat_def split: option.splits)

lemma unix_Chmod_found:
  "lookup w p = Some n \<Longrightarrow>
     Chmod unix p m (w, tr)
       = (None, (store p (n\<lparr>perm := m AND chmodBits\<rparr>) w, tr @ [(SysChmod p m, Succeeded)]))"
  by (simp add: Chmod_def call_def unix_def fs_Chmod_def)

lemma unix_Chown_found:
  "lookup w p = Some n \<Longrightarrow>
     Chown unix p u g (w, tr)
       = (None, (store p (n\<lparr>uid := chownId u (uid n), gid := chownId g (gid n)\<rparr>) w,
                 tr @ [(SysChown p u g, Succeeded)]))"
  by (simp add: Chown_def call_def unix_def fs_Chown_def)

lemma unix_stat_phase:
  assumes "EnsureDirectory_stat unix c s = (Inr info, s')"
  shows "\<exists>n. lookup (fst s') (Directory c) = Some n \<and> info = info_of n"
proof -
  obtain r1 s1 where st: "Stat unix (Directory c) s = (r1, s1)"
    by (cases "Stat unix (Directory c) s")
  show ?thesis
  proof (cases r1)
    case (Inr i)
    then have "Stat unix (Directory c) s = (Inr info, s')"
      using assms st by (simp add: EnsureDirectory_stat_def)
    then show ?thesis using unix_Stat_Inr by metis
  next
    case (Inl err)
    obtain r2 s2 where ed: "EnsureDirectoryIfNotExist unix c s1 = (r2, s2)"
      by (cases "EnsureDirectoryIfNotExist unix c s1")
    obtain r3 s3 where st3: "Stat unix (Directory c) s2 = (r3, s3)"
      by (cases "Stat unix (Directory c) s2")
    have "r3 = Inr info \<and> s3 = s'"
      using assms st Inl ed st3
      by (auto simp: EnsureDirectory_stat_def
            split: sum.splits if_splits outcome.splits option.splits)
    then show ?thesis using st3 unix_Stat_Inr by metis
  qed
qed

lemma stat_phase_not_success:
  "EnsureDirectory_stat os c s = (Inl out, s') \<Longrightarrow> out \<noteq> Return None"
  by (auto simp: EnsureDirectory_stat_def
        split: prod.splits sum.splits if_splits outcome.splits option.splits)

lemma unix_EnsureDirectory_found:
  assumes v: "Directory c \<noteq> []" "IsAbs (Directory c)"
    and st: "EnsureDirectory_stat unix c s = (Inr (info_of n), (w, tr))"
    and n: "lookup w (Directory c) = Some n"
  shows "fst (EnsureDirectory unix c s) = Return None
     \<and> lookup (fst (snd (EnsureDirectory unix c s))) (Directory c) = Some (normalized c n)
     \<and> (\<exists>more. snd (snd (EnsureDirectory unix c s)) = tr @ more
           \<and> (Mode (info_of n) \<noteq> getDirectoryMode c OR ModeDir \<longrightarrow>
                 (\<exists>rest. more = (SysChmod (Directory c) (getDirectoryMode c), Succeeded) # rest))
           \<and> (Mode (info_of n) = getDirectoryMode c OR ModeDir
              \<and> (EnsureDirectoryOwnership c \<longrightarrow> uid n = word_of_int (DirectoryUID c)
                    \<and> gid n = word_of_int (DirectoryGID c))
              \<longrightarrow> more = [] \<and> fst (snd (EnsureDirectory unix c s)) = w))"
  using v n
  by (simp add: EnsureDirectory_def st unix_Chmod_found unix_Chown_found lookup_store
        checkOwnership_def info_of_def normalized_def Let_def)

lemma normalized_stable:
  assumes "is_dir (normalized c n)"
    and "getDirectoryMode c AND chmodBits = getDirectoryMode c"
    and "EnsureDirectoryOwnership c \<longrightarrow>
           word_of_int (DirectoryUID c) \<noteq> (- 1 :: 32 word)
           \<and> word_of_int (DirectoryGID c) \<noteq> (- 1 :: 32 word)"
  shows "Mode (info_of (normalized c n)) = getDirectoryMode c OR ModeDir"
    and "EnsureDirectoryOwnership c \<longrightarrow>
           uid (normalized c n) = word_of_int (DirectoryUID c)
           \<and> gid (normalized c n) = word_of_int (DirectoryGID c)"
proof -
  have d: "is_dir n" using assms(1) by (auto simp: normalized_def Let_def split: if_splits)
  show "Mode (info_of (normalized c n)) = getDirectoryMode c OR ModeDir"
  proof (cases "Mode (info_of n) \<noteq> getDirectoryMode c OR ModeDir")
    case True
    then have "Mode (info_of (normalized c n))
        = ModeDir OR ((getDirectoryMode c AND chmodBits) AND chmodBits)"
      using d by (simp add: normalized_def Let_def info_of_def)
    then show ?thesis using assms(2) by (simp add: or.commute)
  next
    case False
    then have "Mode (info_of (normalized c n)) = Mode (info_of n)"
      using d by (simp add: normalized_def Let_def info_of_def)
    then show ?thesis using False by simp
  qed
  show "EnsureDirectoryOwnership c \<longrightarrow>
           uid (normalized c n) = word_of_int (DirectoryUID c)
           \<and> gid (normalized c n) = word_of_int (DirectoryGID c)"
    using assms(3) by (auto simp: normalized_def Let_def chownId_def)
qed

lemma unix_stat_phase_found:
  "lookup w (Directory c) = Some n \<Longrightarrow>
     EnsureDirectory_stat unix c (w, tr)
       = (Inr (info_of n), (w, tr @ [(SysStat (Directory c), Succeeded)]))"
  by (simp add: EnsureDirectory_stat_def unix_Stat_found)

lemma regular_no_ModeDir: "\<not> is_dir n \<Longrightarrow> Mode (info_of n) AND ModeDir = 0"
  by (simp add: info_of_def chmodBits_ModeDir)

lemma is_dir_normalized: "is_dir (normalized c n) = is_dir n"
  by (simp add: normalized_def Let_def)

section \<open>What a run leaves in place\<close>

lemma call_world: "call sc f s = (r, s') \<Longrightarrow> fst s' = snd (f (fst s)) \<and> r = fst (f (fst s))"
  by (auto simp: call_def split: prod.splits)

lemma query_world: "query sc a f s = (r, s') \<Longrightarrow> fst s' = snd (f (fst s)) \<and> r = fst (f (fst s))"
  by (auto simp: query_def split: prod.splits)

lemma keep_Stat: "keeps os I ok \<Longrightarrow> I (fst s) \<Longrightarrow> Stat os p s = (r, s') \<Longrightarrow> I (fst s')"
  unfolding Stat_def by (drule query_world) (simp add: keeps_def)

lemma keep_FileStat: "keeps os I ok \<Longrightarrow> I (fst s) \<Longrightarrow> FileStat os f s = (r, s') \<Longrightarrow> I (fst s')"
  unfolding FileStat_def by (drule query_world) (simp add: keeps_def)

lemma keep_FileClose: "keeps os I ok \<Longrightarrow> I (fst s) \<Longrightarrow> FileClose os f s = (r, s') \<Longrightarrow> I (fst s')"
  unfolding FileClose_def by (drule call_world) (simp add: keeps_def)

lemma keep_Mkdir:
  "keeps os I ok \<Longrightarrow> I (fst s) \<Longrightarrow> ok p \<Longrightarrow> Mkdir os p m s = (r, s') \<Longrightarrow> I (fst s')"
  unfolding Mkdir_def by (drule call_world) (simp add: keeps_def)

lemma keep_Chmod:
  "keeps os I ok \<Longrightarrow> I (fst s) \<Longrightarrow> ok p \<Longrightarrow> Chmod os p m s = (r, s') \<Longrightarrow> I (fst s')"
  unfolding Chmod_def by (drule call_world) (simp add: keeps_def)

lemma keep_Chown:
  "keeps os I ok \<Longrightarrow> I (fst s) \<Longrightarrow> ok p \<Longrightarrow> Chown os p u g s = (r, s') \<Longrightarrow> I (fst s')"
  unfolding Chown_def by (drule call_world) (simp add: keeps_def)

lemma keep_Remove:
  "keeps os I ok \<Longrightarrow> I (fst s) \<Longrightarrow> ok p \<Longrightarrow> Remove os p s = (r, s') \<Longrightarrow> I (fst s')"
  unfolding Remove_def by (drule call_world) (simp add: keeps_def)

lemma keep_Rename:
  assumes "keeps os I ok" and "I (fst s)" and "Rename os p q s = (Some e, s')"
  shows "I (fst s')"
proof -
  from call_world[OF assms(3)[unfolded Rename_def]]
  have a: "fst s' = snd (os_Rename os p q (fst s))" "Some e = fst (os_Rename os p q (fst s))"
    by simp_all
  have "fst (os_Rename os p q (fst s)) \<noteq> None" using a(2) by (metis option.distinct(1))
  then show ?thesis using assms(1,2) a(1) by (simp add: keeps_def)
qed

lemma keep_TempFile:
  "keeps os I ok \<Longrightarrow> I (fst s) \<Longrightarrow> TempFile os d pat s = (r, s') \<Longrightarrow>
     I (fst s') \<and> (\<forall>f. r = Inr f \<longrightarrow> ok (Name f))"
  unfolding TempFile_def by (drule query_world) (auto simp: keeps_def)

lemma keep_WriteOp:
  "\<forall>f w. I w \<longrightarrow> I (snd (op f w)) \<Longrightarrow> I (fst s) \<Longrightarrow> WriteOp op f s = (r, s') \<Longrightarrow> I (fst s')"
  unfolding WriteOp_def by (drule call_world) simp

lemma keep_checkOwnership:
  assumes "keeps os I ok" "I (fst s)" "ok p"
    and "checkOwnership os p u g msg info s = (r, s')"
  shows "I (fst s')"
  using assms(4) assms(2) keep_Chown[OF assms(1,2,3)]
  by (auto simp: checkOwnership_def split: option.splits if_splits prod.splits)


lemma Clean_Dir: "IsAbs d \<Longrightarrow> Clean (Dir d) = Dir d"
  using Dir_abs_form Clean_clean by metis

lemma keep_EnsureDirectoryIfNotExist:
  "keeps os I ok \<Longrightarrow> I (fst s) \<Longrightarrow> EnsureDirectoryIfNotExist os c s = (r, s') \<Longrightarrow>
     Clean (Directory c) = Directory c \<Longrightarrow>
     (\<forall>q. Clean q = q \<and> q \<noteq> ''/'' \<and> length q \<le> length (Directory c) \<longrightarrow> ok q) \<Longrightarrow>
     I (fst s')"
proof (induction os c s arbitrary: r s' rule: EnsureDirectoryIfNotExist.induct)
  case (1 os c s)
  note k = "1.prems"(1) and i = "1.prems"(2) and run = "1.prems"(3) and cl = "1.prems"(4)
    and paths = "1.prems"(5)
  show ?case
  proof (cases "Directory c = [] \<or> \<not> IsAbs (Directory c) \<or> Directory c = ''/''")
    case True
    then consider "Directory c = []" | "Directory c \<noteq> []" "\<not> IsAbs (Directory c)"
      | "Directory c \<noteq> []" "IsAbs (Directory c)" "Directory c = ''/''" by blast
    then have "s' = s"
    proof cases
      case 1
      then show ?thesis using run by (auto simp: EnsureDirectoryIfNotExist.simps)
    next
      case 2
      then show ?thesis using run by (auto simp: EnsureDirectoryIfNotExist.simps)
    next
      case 3
      then show ?thesis using run by (auto simp: EnsureDirectoryIfNotExist.simps[of os c s])
    qed
    then show ?thesis using i by simp
  next
    case False
    then have v: "Directory c \<noteq> []" "IsAbs (Directory c)" "Directory c \<noteq> ''/''" by auto
    note pc = parentConfig_Return[OF v]
    have okD: "ok (Directory c)" using paths cl v(3) by simp
    obtain r1 s1 where st: "Stat os (Directory c) s = (r1, s1)" by (cases "Stat os (Directory c) s")
    have i1: "I (fst s1)" by (rule keep_Stat[OF k i st])
    show ?thesis
    proof (cases "\<exists>a. r1 = Inl a \<and> IsNotExist a")
      case False
      then have "s' = s1"
        using run v st
        by (auto simp: EnsureDirectoryIfNotExist.simps split: sum.splits)
      then show ?thesis using i1 by simp
    next
      case True
      then obtain a where a: "r1 = Inl a" "IsNotExist a" by blast
      let ?pc = "c\<lparr>Directory := Dir (Directory c)\<rparr>"
      obtain r2 s2 where e: "EnsureDirectoryIfNotExist os ?pc s1 = (r2, s2)"
        by (cases "EnsureDirectoryIfNotExist os ?pc s1")
      have cl2: "Clean (Directory ?pc) = Directory ?pc" using Clean_Dir[OF v(2)] by simp
      have paths2: "\<forall>q. Clean q = q \<and> q \<noteq> ''/'' \<and> length q \<le> length (Directory ?pc) \<longrightarrow> ok q"
        using paths pc(2) by auto
      from "1.IH"[of r1 s1 a ?pc r2 s2] v st a pc(1) e k i1 cl2 paths2
      have i2: "I (fst s2)" by auto
      show ?thesis
      proof (cases "r2 = Return None")
        case False
        then have "s' = s2"
          using run v st a pc(1) e
          by (auto simp: EnsureDirectoryIfNotExist.simps split: outcome.splits option.splits)
        then show ?thesis using i2 by simp
      next
        case r2: True
        obtain r3 s3 where mk: "Mkdir os (Directory c) (getDirectoryMode c) s2 = (r3, s3)"
          by (cases "Mkdir os (Directory c) (getDirectoryMode c) s2")
        have i3: "I (fst s3)" by (rule keep_Mkdir[OF k i2 okD mk])
        obtain r4 s4 where st4: "Stat os (Directory c) s3 = (r4, s4)"
          by (cases "Stat os (Directory c) s3")
        have i4: "I (fst s4)" by (rule keep_Stat[OF k i3 st4])
        note co = keep_checkOwnership[OF k i4 okD]
        show ?thesis
          using run v st a pc(1) e r2 mk st4 i3 i4 co
          by (subst (asm) EnsureDirectoryIfNotExist.simps)
             (auto split: option.splits if_splits sum.splits prod.splits)
      qed
    qed
  qed
qed

lemma keep_create:
  assumes k: "keeps os I ok" and i: "I (fst s)"
    and cr: "WriteFile_create os c s = (r, s1)"
    and cl: "Clean (Directory c) = Directory c"
    and paths: "\<forall>q. Clean q = q \<and> q \<noteq> ''/'' \<and> length q \<le> length (Directory c) \<longrightarrow> ok q"
  shows "I (fst s1) \<and> (\<forall>f. r = Inr f \<longrightarrow> ok (Name f))"
proof -
  obtain r1 t1 where t: "TempFile os (Directory c) (getTempPattern c) s = (r1, t1)"
    by (cases "TempFile os (Directory c) (getTempPattern c) s")
  note k1 = keep_TempFile[OF k i t]
  show ?thesis
  proof (cases r1)
    case (Inr f)
    then have "r = Inr f" "s1 = t1" using cr t by (simp_all add: WriteFile_create_def)
    then show ?thesis using k1 Inr by simp
  next
    case (Inl e)
    show ?thesis
    proof (cases "IsNotExist e")
      case False
      then have "r = Inl (Return (Some e))" "s1 = t1"
        using cr t Inl by (simp_all add: WriteFile_create_def)
      then show ?thesis using k1 by simp
    next
      case True
      obtain r2 t2 where ed: "EnsureDirectoryIfNotExist os c t1 = (r2, t2)"
        by (cases "EnsureDirectoryIfNotExist os c t1")
      have i2: "I (fst t2)"
        by (rule keep_EnsureDirectoryIfNotExist[OF k _ ed cl paths]) (use k1 in simp)
      show ?thesis
      proof (cases "r2 = Return None")
        case False
        then have "r = Inl r2" "s1 = t2"
          using cr t Inl True ed
          by (auto simp: WriteFile_create_def split: outcome.splits option.splits)
        then show ?thesis using i2 by simp
      next
        case r2: True
        obtain r3 t3 where t': "TempFile os (Directory c) (getTempPattern c) t2 = (r3, t3)"
          by (cases "TempFile os (Directory c) (getTempPattern c) t2")
        note k3 = keep_TempFile[OF k i2 t']
        have rs: "r = (case r3 of Inl e2 \<Rightarrow> Inl (Return (Some e2)) | Inr f \<Rightarrow> Inr f)" "s1 = t3"
          using cr t Inl True ed r2 t'
          by (auto simp: WriteFile_create_def split: sum.splits)
        show ?thesis using rs k3 by (auto split: sum.splits)
      qed
    qed
  qed
qed


lemma keep_publish:
  assumes k: "keeps os I ok" and cb: "\<forall>f w. I w \<longrightarrow> I (snd (op f w))" and i: "I (fst s)"
    and pub: "WriteFile_publish os c name op f s = ((out0, fo, tn), s1)"
  shows "(out0 = Return None \<longrightarrow> fo = None \<and> tn = []) \<and> (out0 \<noteq> Return None \<longrightarrow> I (fst s1))
     \<and> (tn = [] \<or> tn = Name f)"
proof -
  obtain r5 s5 where op: "WriteOp op f s = (r5, s5)" by (cases "WriteOp op f s")
  have i5: "I (fst s5)" by (rule keep_WriteOp[OF cb i op])
  show ?thesis
  proof (cases r5)
    case (Some opErr)
    then have "out0 = Return (Some opErr)" "tn = Name f" "s1 = s5"
      using pub op by (simp_all add: WriteFile_publish_def del: Join.simps)
    then show ?thesis using i5 by simp
  next
    case None
    obtain r6 s6 where cl: "FileClose os f s5 = (r6, s6)" by (cases "FileClose os f s5")
    have i6: "I (fst s6)" by (rule keep_FileClose[OF k i5 cl])
    show ?thesis
    proof (cases r6)
      case (Some err)
      then have "out0 = Return (Some err)" "tn = Name f" "s1 = s6"
        using pub op None cl by (simp_all add: WriteFile_publish_def del: Join.simps)
      then show ?thesis using i6 by simp
    next
      case n6: None
      obtain r7 s7 where rn: "Rename os (Name f) (Join [Directory c, name]) s6 = (r7, s7)"
        by (cases "Rename os (Name f) (Join [Directory c, name]) s6")
      show ?thesis
      proof (cases r7)
        case (Some err)
        then have x: "out0 = Return (Some err)" "tn = Name f" "s1 = s7"
          using pub op None cl n6 rn by (simp_all add: WriteFile_publish_def del: Join.simps)
        have "I (fst s7)" by (rule keep_Rename[OF k i6 rn[unfolded Some]])
        then show ?thesis using x by simp
      next
        case n7: None
        then have "out0 = Return None" "fo = None" "tn = []"
          using pub op None cl n6 rn by (simp_all add: WriteFile_publish_def del: Join.simps)
        then show ?thesis by simp
      qed
    qed
  qed
qed

lemma keep_write:
  assumes k: "keeps os I ok" and cb: "\<forall>f w. I w \<longrightarrow> I (snd (op f w))" and i: "I (fst s)"
    and okf: "ok (Name f)"
    and w: "WriteFile_write os c name op f s = ((out0, fo, tn), s1)"
  shows "(out0 = Return None \<longrightarrow> fo = None \<and> tn = []) \<and> (out0 \<noteq> Return None \<longrightarrow> I (fst s1))
     \<and> (tn = [] \<or> tn = Name f)"
proof -
  obtain r2 s2 where fs: "FileStat os f s = (r2, s2)" by (cases "FileStat os f s")
  have i2: "I (fst s2)" by (rule keep_FileStat[OF k i fs])
  show ?thesis
  proof (cases r2)
    case (Inl err)
    then have "out0 = Return (Some err)" "tn = Name f" "s1 = s2"
      using w fs by (simp_all add: WriteFile_write_def)
    then show ?thesis using i2 by simp
  next
    case (Inr info)
    obtain r3 s3 where cm: "(if Mode info \<noteq> getFileMode c
        then Chmod os (Name f) (getFileMode c) s2 else (None, s2)) = (r3, s3)"
      by (cases "(if Mode info \<noteq> getFileMode c
        then Chmod os (Name f) (getFileMode c) s2 else (None, s2))")
    have i3: "I (fst s3)"
      using cm i2 keep_Chmod[OF k i2 okf] by (auto split: if_splits)
    show ?thesis
    proof (cases r3)
      case (Some err)
      then have "out0 = Return (Some err)" "tn = Name f" "s1 = s3"
        using w fs Inr cm by (simp_all add: WriteFile_write_def Let_def)
      then show ?thesis using i3 by simp
    next
      case None
      obtain r4 s4 where ow: "(if EnsureFileOwnership c
          then checkOwnership os (Name f) (FileUID c) (FileGID c) unableFile info s3
          else (Return None, s3)) = (r4, s4)"
        by (cases "(if EnsureFileOwnership c
          then checkOwnership os (Name f) (FileUID c) (FileGID c) unableFile info s3
          else (Return None, s3))")
      have i4: "I (fst s4)"
        using ow i3 keep_checkOwnership[OF k i3 okf] by (auto split: if_splits)
      show ?thesis
      proof (cases "r4 = Return None")
        case False
        then have "out0 = r4" "tn = Name f" "s1 = s4"
          using w fs Inr cm None ow
          by (auto simp: WriteFile_write_def Let_def split: outcome.splits option.splits)
        then show ?thesis using i4 False by simp
      next
        case True
        then have "WriteFile_publish os c name op f s4 = ((out0, fo, tn), s1)"
          using w fs Inr cm None ow by (simp add: WriteFile_write_def Let_def)
        then show ?thesis by (rule keep_publish[OF k cb i4])
      qed
    qed
  qed
qed

lemma keep_body:
  assumes k: "keeps os I ok" and cb: "\<forall>f w. I w \<longrightarrow> I (snd (op f w))" and i: "I (fst s)"
    and cl: "Clean (Directory c) = Directory c"
    and paths: "\<forall>q. Clean q = q \<and> q \<noteq> ''/'' \<and> length q \<le> length (Directory c) \<longrightarrow> ok q"
    and b: "WriteFile_body os c name op s = ((out0, fo, tn), s1)"
  shows "(out0 = Return None \<longrightarrow> fo = None \<and> tn = []) \<and> (out0 \<noteq> Return None \<longrightarrow> I (fst s1))
     \<and> (tn \<noteq> [] \<longrightarrow> ok tn)"
proof -
  obtain r t1 where cr: "WriteFile_create os c s = (r, t1)"
    by (cases "WriteFile_create os c s")
  note kc = keep_create[OF k i cr cl paths]
  show ?thesis
  proof (cases r)
    case (Inl out)
    then have "fo = None" "tn = []" "s1 = t1"
      using b cr by (simp_all add: WriteFile_body_def)
    then show ?thesis using kc by simp
  next
    case (Inr f)
    then have w: "WriteFile_write os c name op f t1 = ((out0, fo, tn), s1)"
      using b cr by (simp add: WriteFile_body_def)
    have okf: "ok (Name f)" using kc Inr by simp
    from keep_write[OF k cb _ okf w] kc okf show ?thesis by auto
  qed
qed

lemma keep_deferred:
  assumes k: "keeps os I ok"
    and d: "WriteFile_deferred os ((out0, fo, tn), s1) = (out, s')"
    and a: "out0 = Return None \<longrightarrow> fo = None \<and> tn = []"
    and i: "out0 \<noteq> Return None \<longrightarrow> I (fst s1)"
    and okt: "tn \<noteq> [] \<longrightarrow> ok tn"
  shows "out \<noteq> Return None \<longrightarrow> I (fst s')"
proof (cases "out0 = Return None")
  case True
  then have "out = Return None" using d a by (simp add: deferred_nothing)
  then show ?thesis by simp
next
  case False
  then have i1: "I (fst s1)" using i by simp
  obtain rc s2 where c: "(case fo of Some fh \<Rightarrow> FileClose os fh s1 | None \<Rightarrow> (None, s1)) = (rc, s2)"
    by (cases "(case fo of Some fh \<Rightarrow> FileClose os fh s1 | None \<Rightarrow> (None, s1))")
  have i2: "I (fst s2)"
    using c i1 keep_FileClose[OF k i1] by (auto split: option.splits)
  obtain rr s3 where r: "(if tn \<noteq> [] then Remove os tn s2 else (None, s2)) = (rr, s3)"
    by (cases "(if tn \<noteq> [] then Remove os tn s2 else (None, s2))")
  have i3: "I (fst s3)"
    using r i2 okt keep_Remove[OF k i2] by (auto split: if_splits)
  have "s' = s3"
    using d c r by (auto simp: WriteFile_deferred_def split: option.splits if_splits)
  then show ?thesis using i3 by simp
qed

lemma keep_WriteFile:
  assumes k: "keeps os I ok" and cb: "\<forall>f w. I w \<longrightarrow> I (snd (op f w))" and i: "I (fst s)"
    and run: "WriteFile os c name op s = (out, s')"
    and okp: "\<forall>q. Clean q = q \<and> q \<noteq> Join [Directory c, name] \<longrightarrow> ok q"
  shows "out \<noteq> Return None \<longrightarrow> I (fst s')"
proof -
  consider "Directory c = []" | "Directory c \<noteq> []" "\<not> IsAbs (Directory c)"
    | "Directory c \<noteq> []" "IsAbs (Directory c)" "IsAbs name"
    | "Directory c \<noteq> []" "IsAbs (Directory c)" "\<not> IsAbs name"
      "Dir (Join [Directory c, name]) \<noteq> Directory c"
      "\<not> HasPrefix (Dir (Join [Directory c, name])) (Directory c @ ''/'')"
    | "Directory c \<noteq> []" "IsAbs (Directory c)" "\<not> IsAbs name"
      "Dir (Join [Directory c, name]) = Directory c
         \<or> HasPrefix (Dir (Join [Directory c, name])) (Directory c @ ''/'')"
    by blast
  then show ?thesis
  proof cases
    case 1
    then have "s' = s" using run by (auto simp: WriteFile.simps[of os c name])
    then show ?thesis using i by simp
  next
    case 2
    then have "s' = s" using run by (auto simp: WriteFile.simps[of os c name])
    then show ?thesis using i by simp
  next
    case 3
    then have "s' = s" using run by (auto simp: WriteFile.simps[of os c name])
    then show ?thesis using i by simp
  next
    case 4
    then have "s' = s"
      using run by (auto simp: WriteFile.simps[of os c name] Let_def simp del: Join.simps)
    then show ?thesis using i by simp
  next
    case 5
    let ?t = "Join [Directory c, name]"
    let ?c = "c\<lparr>Directory := Dir ?t\<rparr>"
    from WriteFile_reduce[OF 5, of os op s] obtain name' where
      n: "Join [Dir ?t, name'] = ?t"
      and w: "WriteFile os c name op s = WriteFile_deferred os (WriteFile_body os ?c name' op s)"
      by blast
    have abs: "IsAbs ?t" by (rule Join_abs[OF 5(2)])
    have cl: "Clean (Directory ?c) = Directory ?c" using Clean_Dir[OF abs] by simp
    have ne: "q \<noteq> ''/'' \<Longrightarrow> length q \<le> length (Dir ?t) \<Longrightarrow> q \<noteq> ?t" for q
      using Dir_shorter[OF abs] by (cases "?t = ''/''") auto
    have paths: "\<forall>q. Clean q = q \<and> q \<noteq> ''/'' \<and> length q \<le> length (Directory ?c) \<longrightarrow> ok q"
      using okp ne by (auto simp del: Join.simps)
    obtain out0 fo tn s1 where b: "WriteFile_body os ?c name' op s = ((out0, fo, tn), s1)"
      by (cases "WriteFile_body os ?c name' op s") auto
    note kb = keep_body[OF k cb i cl paths b]
    have d: "WriteFile_deferred os ((out0, fo, tn), s1) = (out, s')"
      using run w b by simp
    show ?thesis
      by (rule keep_deferred[OF k d]) (use kb in simp_all)
  qed
qed


lemma lookup_delete:
  "Clean p \<noteq> Clean t \<Longrightarrow> lookup (w\<lparr>nodes := AList.delete (Clean p) (nodes w)\<rparr>) t = lookup w t"
  by (simp add: lookup_def delete_conv')

lemma lookup_fields [simp]:
  "lookup (w\<lparr>opened := x\<rparr>) t = lookup w t" "lookup (w\<lparr>counter := y\<rparr>) t = lookup w t"
  by (simp_all add: lookup_def)

lemma unix_keeps: "keeps unix (\<lambda>w. lookup w t = Some n) (\<lambda>p. Clean p \<noteq> Clean t)"
proof -
  let ?I = "\<lambda>w. lookup w t = Some n"
  have 1: "?I w \<Longrightarrow> ?I (snd (fs_Stat p w))" for p w
    by (simp add: fs_Stat_def split: option.splits)
  have 2: "Clean p \<noteq> Clean t \<Longrightarrow> ?I w \<Longrightarrow> ?I (snd (fs_Mkdir p m w))" for p m w
    by (auto simp: fs_Mkdir_def lookup_store split: option.splits)
  have 3: "Clean p \<noteq> Clean t \<Longrightarrow> ?I w \<Longrightarrow> ?I (snd (fs_Chmod p m w))" for p m w
    by (auto simp: fs_Chmod_def lookup_store split: option.splits)
  have 4: "Clean p \<noteq> Clean t \<Longrightarrow> ?I w \<Longrightarrow> ?I (snd (fs_Chown p u g w))" for p u g w
    by (auto simp: fs_Chown_def lookup_store split: option.splits)
  have 5: "Clean p \<noteq> Clean t \<Longrightarrow> ?I w \<Longrightarrow> ?I (snd (fs_Remove p w))" for p w
    by (auto simp: fs_Remove_def lookup_delete split: option.splits)
  have 6: "?I w \<Longrightarrow> fst (fs_Rename p q w) \<noteq> None \<Longrightarrow> ?I (snd (fs_Rename p q w))" for p q w
    by (auto simp: fs_Rename_def split: option.splits if_splits)
  have 7: "?I w \<Longrightarrow> ?I (snd (fs_TempFile d pat w))
      \<and> (\<forall>f. fst (fs_TempFile d pat w) = Inr f \<longrightarrow> Clean (Name f) \<noteq> Clean t)" for d pat w
  proof -
    assume i: "?I w"
    have ne: "Clean t \<noteq> Clean (temp_name d pat (counter w))"
      if "lookup w (temp_name d pat (counter w)) = None"
      using that i by (auto simp: lookup_def)
    show ?thesis
      using i ne
      by (auto simp: fs_TempFile_def Let_def lookup_store split: option.splits)
  qed
  have 8: "?I w \<Longrightarrow> ?I (snd (fs_FileStat f w))" for f w
    by (simp add: fs_FileStat_def split: option.splits)
  have 9: "?I w \<Longrightarrow> ?I (snd (fs_Close f w))" for f w
    by (simp add: fs_Close_def)
  show ?thesis
    unfolding keeps_def unix_def using 1 2 3 4 5 6 7 8 9 by simp
qed

lemma Clean_Join: "IsAbs D \<Longrightarrow> Clean (Join [D, name]) = Join [D, name]"
proof -
  assume "IsAbs D"
  then obtain q where q: "D = CHR ''/'' # q" by (auto simp: IsAbs_iff)
  have ok: "list_all elem_ok (clean_loop True [] (q @ CHR ''/'' # name))"
    by (rule clean_loop_ok) simp
  have "Join [D, name] = CHR ''/'' # join_sep (clean_loop True [] (q @ CHR ''/'' # name))"
    by (simp add: q Clean_abs)
  then show ?thesis using Clean_clean[OF ok] by simp
qed

lemma escalate_not_success: "escalate a b (Return (Some e)) \<noteq> Return None"
  by (auto simp: escalate_def split: option.splits)

lemma unix_retains:
  assumes l: "lookup w (Join [Directory c, name]) = Some n"
    and cb: "\<forall>g x. lookup x (Join [Directory c, name]) = Some n
               \<longrightarrow> lookup (snd (op g x)) (Join [Directory c, name]) = Some n"
    and run: "WriteFile unix c name op (w, tr0) = (out, (w', tr'))"
    and out: "out \<noteq> Return None"
  shows "lookup w' (Join [Directory c, name]) = Some n"
proof (cases "Directory c \<noteq> [] \<and> IsAbs (Directory c)")
  case False
  then consider "Directory c = []" | "Directory c \<noteq> []" "\<not> IsAbs (Directory c)" by blast
  then have "w' = w"
  proof cases
    case 1
    then show ?thesis using run by (auto simp: WriteFile.simps[of unix c name])
  next
    case 2
    then show ?thesis using run by (auto simp: WriteFile.simps[of unix c name])
  qed
  then show ?thesis using l by simp
next
  case True
  let ?t = "Join [Directory c, name]"
  have ct: "Clean ?t = ?t" using Clean_Join True by blast
  have okp: "\<forall>q. Clean q = q \<and> q \<noteq> ?t \<longrightarrow> Clean q \<noteq> Clean ?t"
    unfolding ct by simp
  have i: "lookup (fst (w, tr0)) ?t = Some n" using l by simp
  from keep_WriteFile[of unix "\<lambda>w. lookup w ?t = Some n" "\<lambda>p. Clean p \<noteq> Clean ?t",
      OF unix_keeps cb i run okp] out
  show ?thesis by simp
qed

section \<open>The claims\<close>

text \<open>
  Claim C2. With a non-empty absolute directory, an absolute name makes \<^verbatim>\<open>WriteFile\<close>
  return the error \<^verbatim>\<open>InvalidName\<close> that carries this name, and the state comes back as it
  went in: no operation on the file system was performed, none was logged.
\<close>

theorem WriteFile_absolute_name:
  assumes "Directory c \<noteq> []" and "IsAbs (Directory c)" and "IsAbs name"
  shows "WriteFile os c name op s = (Return (Some (InvalidName name)), s)"
  using assms by (simp add: WriteFile.simps)

theorem WriteFile_absolute_name_witness:
  "Directory (config ''/data/app'') \<noteq> [] \<and> IsAbs (Directory (config ''/data/app''))
   \<and> IsAbs ''/etc/passwd''
   \<and> WriteFile unix (config ''/data/app'') ''/etc/passwd'' (writeString ''x'') (emptyFS, [])
       = (Return (Some (InvalidName ''/etc/passwd'')), (emptyFS, []))"
proof -
  have a: "Directory (config ''/data/app'') \<noteq> []" by (simp add: config_def)
  have b: "IsAbs (Directory (config ''/data/app''))" by (simp add: config_def IsAbs_def HasPrefix_def)
  have c: "IsAbs ''/etc/passwd''" by (simp add: IsAbs_def HasPrefix_def)
  show ?thesis by (intro conjI a b c WriteFile_absolute_name[OF a b c])
qed

text \<open>
  Claim C3. Let the name be relative and let the parent directory of the joined and
  cleaned path be other than the configured directory and not strictly below it: its
  path elements do not extend those of the configured directory, or, what the code
  tests and what follows from the former, it does not begin with the configured
  directory followed by a slash. Then the prefix test fails, \<^verbatim>\<open>WriteFile\<close> returns
  \<^verbatim>\<open>InvalidName\<close> of the name and performs no operation on the file system. An example is
  the name \<^verbatim>\<open>../escape.txt\<close> under \<^verbatim>\<open>/data/app\<close>.
\<close>

theorem WriteFile_escaping_name:
  assumes "Directory c \<noteq> []" and "IsAbs (Directory c)" and "\<not> IsAbs name"
    and "Dir (Join [Directory c, name]) \<noteq> Directory c"
    and "\<not> descendant (Dir (Join [Directory c, name])) (Directory c)
         \<or> \<not> HasPrefix (Dir (Join [Directory c, name])) (Directory c @ ''/'')"
  shows "\<not> HasPrefix (Dir (Join [Directory c, name])) (Directory c @ ''/'')
       \<and> WriteFile os c name op s = (Return (Some (InvalidName name)), s)"
proof -
  have p: "\<not> HasPrefix (Dir (Join [Directory c, name])) (Directory c @ ''/'')"
    using assms(5) not_descendant_no_prefix[OF assms(2,3)] by blast
  show ?thesis
    using assms(1-4) p by (simp add: WriteFile.simps Let_def del: Join.simps)
qed

theorem WriteFile_escaping_name_witness:
  "Directory (config ''/data/app'') \<noteq> [] \<and> IsAbs (Directory (config ''/data/app''))
   \<and> \<not> IsAbs ''../escape.txt''
   \<and> Dir (Join [Directory (config ''/data/app''), ''../escape.txt'']) = ''/data''
   \<and> Dir (Join [Directory (config ''/data/app''), ''../escape.txt'']) \<noteq> Directory (config ''/data/app'')
   \<and> \<not> descendant (Dir (Join [Directory (config ''/data/app''), ''../escape.txt'']))
         (Directory (config ''/data/app''))
   \<and> \<not> HasPrefix (Dir (Join [Directory (config ''/data/app''), ''../escape.txt'']))
         (Directory (config ''/data/app'') @ ''/'')
   \<and> WriteFile unix (config ''/data/app'') ''../escape.txt'' (writeString ''x'') (emptyFS, [])
       = (Return (Some (InvalidName ''../escape.txt'')), (emptyFS, []))"
proof -
  have d: "Directory (config ''/data/app'') = ''/data/app''" by (simp add: config_def)
  have a: "Directory (config ''/data/app'') \<noteq> []" by (simp add: d)
  have b: "IsAbs (Directory (config ''/data/app''))" by (simp add: d IsAbs_def HasPrefix_def)
  have c: "\<not> IsAbs ''../escape.txt''" by (simp add: IsAbs_def HasPrefix_def)
  have p: "Dir (Join [Directory (config ''/data/app''), ''../escape.txt'']) = ''/data''"
    unfolding d by (rule Dir_Join_escape)
  have e: "Dir (Join [Directory (config ''/data/app''), ''../escape.txt'']) \<noteq> Directory (config ''/data/app'')"
    unfolding d Dir_Join_escape by simp
  have f: "\<not> descendant (Dir (Join [Directory (config ''/data/app''), ''../escape.txt'']))
         (Directory (config ''/data/app''))"
    unfolding d Dir_Join_escape by code_simp
  note T = WriteFile_escaping_name[OF a b c e disjI1[OF f]]
  show ?thesis
    by (rule conjI[OF a conjI[OF b conjI[OF c conjI[OF p conjI[OF e conjI[OF f T]]]]]])
qed

text \<open>
  Claim C10. Under the root directory \<^verbatim>\<open>/\<close>, a relative name whose resolved parent is
  not \<^verbatim>\<open>/\<close> itself, such as \<^verbatim>\<open>sub/file.txt\<close>, is rejected with \<^verbatim>\<open>InvalidName\<close> and nothing
  is done on the file system: the prefix that is tested is \<^verbatim>\<open>//\<close>, which no cleaned path
  begins with.
\<close>

theorem WriteFile_root_subdirectory:
  assumes "Directory c = ''/''" and "\<not> IsAbs name"
    and "Dir (Join [''/'', name]) \<noteq> ''/''"
  shows "WriteFile os c name op s = (Return (Some (InvalidName name)), s)"
proof -
  have "IsAbs (Join [''/'', name])" by (rule Join_abs) (simp add: IsAbs_iff)
  then obtain es where "list_all elem_ok es" "Dir (Join [''/'', name]) = CHR ''/'' # join_sep es"
    using Dir_abs_form by blast
  then have "\<not> HasPrefix (Dir (Join [''/'', name])) (''/'' @ ''/'')"
    using clean_no_double_slash by simp
  then show ?thesis
    using assms by (simp add: WriteFile.simps Let_def IsAbs_iff del: Join.simps)
qed

theorem WriteFile_root_subdirectory_witness:
  "Directory (config ''/'') = ''/'' \<and> \<not> IsAbs ''sub/file.txt''
   \<and> Dir (Join [''/'', ''sub/file.txt'']) \<noteq> ''/''
   \<and> WriteFile unix (config ''/'') ''sub/file.txt'' (writeString ''x'') (emptyFS, [])
       = (Return (Some (InvalidName ''sub/file.txt'')), (emptyFS, []))"
proof -
  have a: "Directory (config ''/'') = ''/''" by (simp add: config_def)
  have b: "\<not> IsAbs ''sub/file.txt''" by (simp add: IsAbs_def HasPrefix_def)
  have c: "Dir (Join [''/'', ''sub/file.txt'']) \<noteq> ''/''" unfolding Dir_Join_sub by simp
  show ?thesis by (intro conjI a b c WriteFile_root_subdirectory[OF a b c])
qed

text \<open>
  Claim C6. When the directory of the configuration is empty or not absolute, each of
  \<^verbatim>\<open>EnsureDirectory\<close>, \<^verbatim>\<open>EnsureDirectoryIfNotExist\<close> and \<^verbatim>\<open>WriteFile\<close> panics, with the
  message for the empty directory or the one for the relative directory, and does
  nothing else. A panic is an outcome of its own, apart from every returned error.
\<close>

theorem precondition_panics:
  assumes "Directory c = [] \<or> \<not> IsAbs (Directory c)"
  shows "EnsureDirectory os c s
           = (Panic (if Directory c = [] then panicDirectoryEmpty else panicDirectoryNotAbsolute), s)
       \<and> EnsureDirectoryIfNotExist os c s
           = (Panic (if Directory c = [] then panicDirectoryEmpty else panicDirectoryNotAbsolute), s)
       \<and> WriteFile os c name op s
           = (Panic (if Directory c = [] then panicDirectoryEmpty else panicDirectoryNotAbsolute), s)"
  using assms
  by (auto simp: EnsureDirectory_def EnsureDirectoryIfNotExist.simps WriteFile.simps)

theorem precondition_panics_witness:
  "(Directory (config []) = [] \<or> \<not> IsAbs (Directory (config [])))
   \<and> EnsureDirectory unix (config []) (emptyFS, []) = (Panic panicDirectoryEmpty, (emptyFS, []))
   \<and> EnsureDirectoryIfNotExist unix (config []) (emptyFS, [])
        = (Panic panicDirectoryEmpty, (emptyFS, []))
   \<and> WriteFile unix (config []) ''out.txt'' (writeString ''x'') (emptyFS, [])
        = (Panic panicDirectoryEmpty, (emptyFS, []))
   \<and> (Directory (config ''data/app'') = [] \<or> \<not> IsAbs (Directory (config ''data/app'')))
   \<and> EnsureDirectory unix (config ''data/app'') (emptyFS, [])
        = (Panic panicDirectoryNotAbsolute, (emptyFS, []))
   \<and> EnsureDirectoryIfNotExist unix (config ''data/app'') (emptyFS, [])
        = (Panic panicDirectoryNotAbsolute, (emptyFS, []))
   \<and> WriteFile unix (config ''data/app'') ''out.txt'' (writeString ''x'') (emptyFS, [])
        = (Panic panicDirectoryNotAbsolute, (emptyFS, []))"
proof -
  have a: "Directory (config []) = [] \<or> \<not> IsAbs (Directory (config []))"
    by (simp add: config_def)
  have b: "Directory (config ''data/app'') = [] \<or> \<not> IsAbs (Directory (config ''data/app''))"
    by (simp add: config_def IsAbs_def HasPrefix_def)
  have c: "Directory (config []) = []" "(Directory (config ''data/app'') = []) = False"
    by (simp_all add: config_def)
  show ?thesis
    using a b precondition_panics[OF a, of unix "(emptyFS, [])" "''out.txt''" "writeString ''x''"]
      precondition_panics[OF b, of unix "(emptyFS, [])" "''out.txt''" "writeString ''x''"]
    by (simp only: c if_True if_False simp_thms)
qed

text \<open>
  Claim C5. \<^verbatim>\<open>EnsureDirectoryIfNotExist\<close> terminates on every non-empty absolute directory.
  The root \<^verbatim>\<open>/\<close> returns success at once and does nothing. For any other such directory
  \<^verbatim>\<open>parentConfig\<close> yields the configuration of the parent, which is again non-empty and
  absolute and strictly shorter; this is the measure of the termination proof of the
  function. A directory that is its own parent makes \<^verbatim>\<open>parentConfig\<close> panic with
  \<^verbatim>\<open>wtf\<close>. The whole call performs at most four operations for each character of the
  directory after the first.
\<close>

theorem EnsureDirectoryIfNotExist_terminates:
  assumes "Directory c \<noteq> []" and "IsAbs (Directory c)"
  shows "(Directory c = ''/'' \<longrightarrow> EnsureDirectoryIfNotExist os c s = (Return None, s))
    \<and> (Directory c \<noteq> ''/'' \<longrightarrow>
          parentConfig c = Return (c\<lparr>Directory := Dir (Directory c)\<rparr>)
          \<and> Dir (Directory c) \<noteq> [] \<and> IsAbs (Dir (Directory c))
          \<and> length (Dir (Directory c)) < length (Directory c))
    \<and> (Dir (Directory c) = Directory c \<longrightarrow> parentConfig c = Panic (PanicString ''wtf''))
    \<and> length (snd (snd (EnsureDirectoryIfNotExist os c s)))
          \<le> length (snd s) + 4 * (length (Directory c) - 1)"
proof (intro conjI impI)
  assume "Directory c = ''/''"
  then show "EnsureDirectoryIfNotExist os c s = (Return None, s)"
    by (simp add: EnsureDirectoryIfNotExist.simps IsAbs_iff)
next
  assume n: "Directory c \<noteq> ''/''"
  note pc = parentConfig_Return[OF assms n]
  show "parentConfig c = Return (c\<lparr>Directory := Dir (Directory c)\<rparr>)" by (rule pc(1))
  show "Dir (Directory c) \<noteq> []" by (rule pc(4))
  show "IsAbs (Dir (Directory c))" by (rule pc(3))
  show "length (Dir (Directory c)) < length (Directory c)" by (rule pc(2))
next
  assume "Dir (Directory c) = Directory c"
  then show "parentConfig c = Panic (PanicString ''wtf'')"
    using assms by (simp add: parentConfig_def Let_def)
next
  show "length (snd (snd (EnsureDirectoryIfNotExist os c s)))
          \<le> length (snd s) + 4 * (length (Directory c) - 1)"
    by (rule EnsureDirectoryIfNotExist_length)
qed


theorem EnsureDirectoryIfNotExist_terminates_witness:
  "Directory (config ''/data/app'') \<noteq> [] \<and> IsAbs (Directory (config ''/data/app''))
   \<and> Directory (config ''/data/app'') \<noteq> ''/''
   \<and> (parentConfig (config ''/data/app'')
            = Return ((config ''/data/app'')\<lparr>Directory := Dir (Directory (config ''/data/app''))\<rparr>)
       \<and> Dir (Directory (config ''/data/app'')) \<noteq> []
       \<and> IsAbs (Dir (Directory (config ''/data/app'')))
       \<and> length (Dir (Directory (config ''/data/app''))) < length (Directory (config ''/data/app'')))
   \<and> Dir (Directory (config ''/data/app'')) = ''/data''
   \<and> length (snd (snd (EnsureDirectoryIfNotExist unix (config ''/data/app'') (emptyFS, []))))
          \<le> length (snd (emptyFS, [] :: event list))
               + 4 * (length (Directory (config ''/data/app'')) - 1)
   \<and> length (snd (snd (EnsureDirectoryIfNotExist unix (config ''/data/app'') (emptyFS, [])))) = 4"
proof -
  have a: "Directory (config ''/data/app'') \<noteq> []" by (simp add: config_def)
  have b: "IsAbs (Directory (config ''/data/app''))"
    by (simp add: config_def IsAbs_def HasPrefix_def)
  have n: "Directory (config ''/data/app'') \<noteq> ''/''" by (simp add: config_def)
  have d: "Dir (Directory (config ''/data/app'')) = ''/data''" by code_simp
  have l: "length (snd (snd (EnsureDirectoryIfNotExist unix (config ''/data/app'') (emptyFS, [])))) = 4"
    by code_simp
  note T = EnsureDirectoryIfNotExist_terminates[OF a b, of unix "(emptyFS, [])"]
  note T2 = T[THEN conjunct2, THEN conjunct1, THEN mp, OF n]
  note T4 = T[THEN conjunct2, THEN conjunct2, THEN conjunct2]
  show ?thesis
    by (rule conjI[OF a conjI[OF b conjI[OF n conjI[OF T2 conjI[OF d conjI[OF T4 l]]]]]])
qed

text \<open>
  Claim C1, as it is written: whenever the write callback returns an error, \<^verbatim>\<open>WriteFile\<close>
  returns that error. It fails for a callback that closes its file before it returns
  the error: the deferred close then fails, and \<^verbatim>\<open>WriteFile\<close> panics with the error of
  the close instead of returning the error of the callback.
\<close>

theorem WriteFile_callback_error_counterexample:
  "(SysWriteOp tmp0, Failed (CustomError ''boom''))
      \<in> set (snd (snd (WriteFile unix (config ''/'') ''out.txt''
                          (closingOp (CustomError ''boom'')) (emptyFS, []))))
   \<and> fst (WriteFile unix (config ''/'') ''out.txt'' (closingOp (CustomError ''boom'')) (emptyFS, []))
       = Panic (PanicError (PathError EBADF))
   \<and> fst (WriteFile unix (config ''/'') ''out.txt'' (closingOp (CustomError ''boom'')) (emptyFS, []))
       \<noteq> Return (Some (CustomError ''boom''))"
  by code_simp

text \<open>
  Claim C1, amended. Let the write callback, called on the temporary file \<open>f\<close>, return
  the error \<open>e\<close>. Then no rename is performed, and the run ends with the callback, the
  close of \<open>f\<close> and the removal of the temporary file, in this order. \<^verbatim>\<open>WriteFile\<close> returns
  \<open>e\<close> exactly when the close succeeds and the removal succeeds or reports that the file
  does not exist; otherwise it panics, as \<open>escalate\<close> says: with the error of the removal
  if that is not a not-exist error, else with the error of the close. The final path is
  left as it was: unless the temporary file was itself created at the final path, no
  operation of the whole run changes what is there, neither a mkdir, chmod, chown or
  remove of it, nor a rename from or to it, nor the creation of a file. On the file
  system \<open>unix\<close>, where a temporary file is never created at a path that is taken, a node
  that is at the final path before the call is there unchanged after it, for every
  callback that leaves it there.
\<close>

theorem WriteFile_callback_error:
  assumes "WriteFile os c name op (w, []) = (out, (w', tr))"
    and "(SysWriteOp f, Failed e) \<in> set tr"
    and "Name f \<noteq> []"
  shows "(\<forall>a b r. (SysRename a b, r) \<notin> set tr)
     \<and> (\<exists>before closeErr cleanupErr.
          tr = before @ [(SysWriteOp f, Failed e), (SysFileClose f, answered closeErr),
                         (SysRemove (Name f), answered cleanupErr)]
          \<and> out = escalate closeErr cleanupErr (Return (Some e))
          \<and> (out = Return (Some e)
                \<longleftrightarrow> closeErr = None \<and> (\<forall>x. cleanupErr = Some x \<longrightarrow> IsNotExist x)))
     \<and> (Name f \<noteq> Join [Directory c, name] \<longrightarrow>
           (\<forall>ev\<in>set tr. \<not> touches (Join [Directory c, name]) ev))
     \<and> (\<forall>fw n op' out' fw' tr' g e'.
           lookup fw (Join [Directory c, name]) = Some n
         \<and> (\<forall>h x. lookup x (Join [Directory c, name]) = Some n
                  \<longrightarrow> lookup (snd (op' h x)) (Join [Directory c, name]) = Some n)
         \<and> WriteFile unix c name op' (fw, []) = (out', (fw', tr'))
         \<and> (SysWriteOp g, Failed e') \<in> set tr'
         \<longrightarrow> lookup fw' (Join [Directory c, name]) = Some n)"
proof -
  have kept: "lookup fw' (Join [Directory c, name]) = Some n"
    if l: "lookup fw (Join [Directory c, name]) = Some n"
      and cb: "\<forall>h x. lookup x (Join [Directory c, name]) = Some n
                  \<longrightarrow> lookup (snd (op' h x)) (Join [Directory c, name]) = Some n"
      and r: "WriteFile unix c name op' (fw, []) = (out', (fw', tr'))"
      and m: "(SysWriteOp g, Failed e') \<in> set tr'"
    for fw n op' out' fw' tr' g e'
  proof -
    from WriteFile_traces[OF r] have "WriteFile_run c name out' tr'" by simp
    from WriteFile_run_callback_failed[OF this m]
    have "out' \<noteq> Return None" using escalate_not_success by metis
    then show ?thesis by (rule unix_retains[OF l cb r])
  qed
  from WriteFile_traces[OF assms(1)] have run: "WriteFile_run c name out tr" by simp
  from WriteFile_run_callback_failed[OF run assms(2)] obtain before closeErr cleanupErr where
    nr: "\<forall>a b r. (SysRename a b, r) \<notin> set tr"
    and tr: "tr = before @ (SysWriteOp f, Failed e) # (SysFileClose f, answered closeErr)
                 # removal f cleanupErr"
    and out: "out = escalate closeErr cleanupErr (Return (Some e))"
    by blast
  have "tr = before @ [(SysWriteOp f, Failed e), (SysFileClose f, answered closeErr),
                         (SysRemove (Name f), answered cleanupErr)]"
    using tr assms(3) by (simp add: removal_def)
  moreover have "out = Return (Some e)
      \<longleftrightarrow> closeErr = None \<and> (\<forall>x. cleanupErr = Some x \<longrightarrow> IsNotExist x)"
    unfolding out by (rule escalate_Return)
  ultimately have shape: "\<exists>before closeErr cleanupErr.
          tr = before @ [(SysWriteOp f, Failed e), (SysFileClose f, answered closeErr),
                         (SysRemove (Name f), answered cleanupErr)]
          \<and> out = escalate closeErr cleanupErr (Return (Some e))
          \<and> (out = Return (Some e)
                \<longleftrightarrow> closeErr = None \<and> (\<forall>x. cleanupErr = Some x \<longrightarrow> IsNotExist x))"
    using out by blast
  have "Name f \<noteq> Join [Directory c, name] \<longrightarrow>
           (\<forall>ev\<in>set tr. \<not> touches (Join [Directory c, name]) ev)"
    using WriteFile_run_untouched[OF run assms(2)] by blast
  moreover have "\<forall>fw n op' out' fw' tr' g e'.
           lookup fw (Join [Directory c, name]) = Some n
         \<and> (\<forall>h x. lookup x (Join [Directory c, name]) = Some n
                  \<longrightarrow> lookup (snd (op' h x)) (Join [Directory c, name]) = Some n)
         \<and> WriteFile unix c name op' (fw, []) = (out', (fw', tr'))
         \<and> (SysWriteOp g, Failed e') \<in> set tr'
         \<longrightarrow> lookup fw' (Join [Directory c, name]) = Some n"
    using kept by blast
  ultimately show ?thesis using nr shape by (intro conjI)
qed

theorem WriteFile_callback_error_witness:
  "(SysWriteOp tmp0, Failed (CustomError ''boom''))
      \<in> set (snd (snd (WriteFile unix (config ''/'') ''d''
                          (failingOp (CustomError ''boom'')) (fileFS, []))))
   \<and> Name tmp0 \<noteq> []
   \<and> Name tmp0 \<noteq> Join [Directory (config ''/''), ''d'']
   \<and> fst (WriteFile unix (config ''/'') ''d'' (failingOp (CustomError ''boom'')) (fileFS, []))
       = Return (Some (CustomError ''boom''))
   \<and> (\<forall>a b r. (SysRename a b, r)
         \<notin> set (snd (snd (WriteFile unix (config ''/'') ''d''
                             (failingOp (CustomError ''boom'')) (fileFS, [])))))
   \<and> filter (touches (Join [Directory (config ''/''), ''d'']))
        (snd (snd (WriteFile unix (config ''/'') ''d''
                     (failingOp (CustomError ''boom'')) (fileFS, [])))) = []
   \<and> Join [Directory (config ''/''), ''d''] = ''/d''
   \<and> lookup fileFS (Join [Directory (config ''/''), ''d'']) = Some fileNode
   \<and> lookup (fst (snd (WriteFile unix (config ''/'') ''d''
                          (failingOp (CustomError ''boom'')) (fileFS, []))))
         (Join [Directory (config ''/''), ''d''])
       = Some fileNode
   \<and> lookup (fst (snd (WriteFile unix (config ''/'') ''d''
                          (failingOp (CustomError ''boom'')) (fileFS, [])))) (Name tmp0)
       = None"
proof -
  let ?run = "WriteFile unix (config ''/'') ''d'' (failingOp (CustomError ''boom'')) (fileFS, [])"
  have run: "?run = (fst ?run, (fst (snd ?run), snd (snd ?run)))" by simp
  have mem: "(SysWriteOp tmp0, Failed (CustomError ''boom'')) \<in> set (snd (snd ?run))"
    by code_simp
  have nm: "Name tmp0 \<noteq> []" by (simp add: tmp0_def)
  have ne: "Name tmp0 \<noteq> Join [Directory (config ''/''), ''d'']" by code_simp
  have out: "fst ?run = Return (Some (CustomError ''boom''))" by code_simp
  have j: "Join [Directory (config ''/''), ''d''] = ''/d''" by code_simp
  have l0: "lookup fileFS (Join [Directory (config ''/''), ''d'']) = Some fileNode" by code_simp
  have cb: "\<forall>h x. lookup x (Join [Directory (config ''/''), ''d'']) = Some fileNode
      \<longrightarrow> lookup (snd (failingOp (CustomError ''boom'') h x))
            (Join [Directory (config ''/''), ''d'']) = Some fileNode"
    by (simp add: failingOp_def del: Join.simps)
  have l2: "lookup (fst (snd ?run)) (Name tmp0) = None" by code_simp
  note T = WriteFile_callback_error[OF run mem nm]
  have u: "filter (touches (Join [Directory (config ''/''), ''d''])) (snd (snd ?run)) = []"
    using T[THEN conjunct2, THEN conjunct2, THEN conjunct1, THEN mp, OF ne]
    by (simp only: filter_empty_conv)
  have l1: "lookup (fst (snd ?run)) (Join [Directory (config ''/''), ''d'']) = Some fileNode"
    by (rule T[THEN conjunct2, THEN conjunct2, THEN conjunct2, rule_format,
          OF conjI[OF l0 conjI[OF cb conjI[OF run mem]]]])
  show ?thesis
    by (rule conjI[OF mem conjI[OF nm conjI[OF ne conjI[OF out conjI[OF T[THEN conjunct1]
          conjI[OF u conjI[OF j conjI[OF l0 conjI[OF l1 l2]]]]]]]]])
qed



text \<open>
  Claim C8. Let the name be accepted and let the first creation of the temporary file
  fail with the error \<open>e\<close>. If \<open>e\<close> is not a not-exist error, \<^verbatim>\<open>WriteFile\<close> returns \<open>e\<close> and
  does nothing more. If it is, \<^verbatim>\<open>EnsureDirectoryIfNotExist\<close> runs on the directory; when
  that fails or panics, this is the outcome and no creation is tried again; when it
  succeeds, the creation is tried once more, a failure of this second creation is
  returned with nothing more done, and a success continues with the file of the second
  creation. No run holds more than two creations.
\<close>

theorem WriteFile_retries_creation_once:
  assumes "Directory c \<noteq> []" and "IsAbs (Directory c)" and "\<not> IsAbs name"
    and "Dir (Join [Directory c, name]) = Directory c
         \<or> HasPrefix (Dir (Join [Directory c, name])) (Directory c @ ''/'')"
    and "TempFile os (Dir (Join [Directory c, name])) (getTempPattern c) s = (Inl e, s1)"
  shows "(\<not> IsNotExist e \<longrightarrow> WriteFile os c name op s = (Return (Some e), s1))
    \<and> (IsNotExist e \<longrightarrow>
         (case EnsureDirectoryIfNotExist os (c\<lparr>Directory := Dir (Join [Directory c, name])\<rparr>) s1 of
            (Return None, s2) \<Rightarrow>
              (case TempFile os (Dir (Join [Directory c, name])) (getTempPattern c) s2 of
                 (Inl e2, s3) \<Rightarrow> WriteFile os c name op s = (Return (Some e2), s3)
               | (Inr f, s3) \<Rightarrow>
                   (\<exists>name'. Join [Dir (Join [Directory c, name]), name'] = Join [Directory c, name]
                      \<and> WriteFile os c name op s
                          = WriteFile_deferred os
                              (WriteFile_write os
                                 (c\<lparr>Directory := Dir (Join [Directory c, name])\<rparr>) name' op f s3)))
          | (r, s2) \<Rightarrow> WriteFile os c name op s = (r, s2)))
    \<and> length (filter creation (snd (snd (WriteFile os c name op s))))
         \<le> length (filter creation (snd s)) + 2"
proof -
  let ?d = "Dir (Join [Directory c, name])"
  let ?c = "c\<lparr>Directory := ?d\<rparr>"
  from WriteFile_reduce[OF assms(1-4), of os op s] obtain name' where
    n: "Join [?d, name'] = Join [Directory c, name]"
    and w: "WriteFile os c name op s = WriteFile_deferred os (WriteFile_body os ?c name' op s)"
    by blast
  have t: "TempFile os (Directory ?c) (getTempPattern ?c) s = (Inl e, s1)"
    using assms(5) by (simp del: Join.simps)
  have tp: "TempFile os (Directory ?c) (getTempPattern ?c) s2
      = TempFile os ?d (getTempPattern c) s2" for s2
    by (simp del: Join.simps)
  have A: "\<not> IsNotExist e \<longrightarrow> WriteFile os c name op s = (Return (Some e), s1)"
    unfolding w
    by (simp add: WriteFile_body_def WriteFile_create_def assms(5) deferred_nothing del: Join.simps)
  have B: "IsNotExist e \<longrightarrow>
         (case EnsureDirectoryIfNotExist os ?c s1 of
            (Return None, s2) \<Rightarrow>
              (case TempFile os ?d (getTempPattern c) s2 of
                 (Inl e2, s3) \<Rightarrow> WriteFile os c name op s = (Return (Some e2), s3)
               | (Inr f, s3) \<Rightarrow>
                   (\<exists>name'. Join [?d, name'] = Join [Directory c, name]
                      \<and> WriteFile os c name op s
                          = WriteFile_deferred os (WriteFile_write os ?c name' op f s3)))
          | (r, s2) \<Rightarrow> WriteFile os c name op s = (r, s2))"
  proof
    assume ne: "IsNotExist e"
    obtain r2 s2 where ed: "EnsureDirectoryIfNotExist os ?c s1 = (r2, s2)"
      by (cases "EnsureDirectoryIfNotExist os ?c s1")
    obtain r3 s3 where t3: "TempFile os ?d (getTempPattern c) s2 = (r3, s3)"
      by (cases "TempFile os ?d (getTempPattern c) s2")
    show "(case EnsureDirectoryIfNotExist os ?c s1 of
            (Return None, s2) \<Rightarrow>
              (case TempFile os ?d (getTempPattern c) s2 of
                 (Inl e2, s3) \<Rightarrow> WriteFile os c name op s = (Return (Some e2), s3)
               | (Inr f, s3) \<Rightarrow>
                   (\<exists>name'. Join [?d, name'] = Join [Directory c, name]
                      \<and> WriteFile os c name op s
                          = WriteFile_deferred os (WriteFile_write os ?c name' op f s3)))
          | (r, s2) \<Rightarrow> WriteFile os c name op s = (r, s2))"
    proof (cases "r2 = Return None")
      case False
      have "WriteFile_body os ?c name' op s = ((r2, None, []), s2)"
        using False ne ed
        by (cases r2; cases "case r2 of Return x \<Rightarrow> x | _ \<Rightarrow> None")
           (auto simp: WriteFile_body_def WriteFile_create_def assms(5) simp del: Join.simps)
      then have "WriteFile os c name op s = (r2, s2)" unfolding w by (simp add: deferred_nothing)
      then show ?thesis using False ed
        by (cases r2; cases "case r2 of Return x \<Rightarrow> x | _ \<Rightarrow> None") auto
    next
      case True
      show ?thesis
      proof (cases r3)
        case (Inl e2)
        have "WriteFile_body os ?c name' op s = ((Return (Some e2), None, []), s3)"
          using True ne ed t3 Inl
          by (simp add: WriteFile_body_def WriteFile_create_def assms(5) del: Join.simps)
        then have "WriteFile os c name op s = (Return (Some e2), s3)"
          unfolding w by (simp add: deferred_nothing)
        then show ?thesis using True ed t3 Inl by (simp del: Join.simps)
      next
        case (Inr f)
        have "WriteFile_body os ?c name' op s = WriteFile_write os ?c name' op f s3"
          using True ne ed t3 Inr
          by (simp add: WriteFile_body_def WriteFile_create_def assms(5) del: Join.simps)
        then have "WriteFile os c name op s
            = WriteFile_deferred os (WriteFile_write os ?c name' op f s3)"
          unfolding w by simp
        then show ?thesis using True ed t3 Inr n by (auto simp del: Join.simps)
      qed
    qed
  qed
  obtain out s' where r: "WriteFile os c name op s = (out, s')"
    by (cases "WriteFile os c name op s")
  from WriteFile_traces[OF r] obtain tr where
    tr: "snd s' = snd s @ tr" "WriteFile_run c name out tr" by blast
  have C: "length (filter creation (snd (snd (WriteFile os c name op s))))
         \<le> length (filter creation (snd s)) + 2"
    using WriteFile_run_creations[OF tr(2)] by (simp add: r tr(1))
  show ?thesis using A B C by blast
qed


theorem WriteFile_retries_creation_once_witness:
  "Directory (config ''/data/app'') \<noteq> [] \<and> IsAbs (Directory (config ''/data/app''))
   \<and> \<not> IsAbs ''out.txt''
   \<and> (Dir (Join [Directory (config ''/data/app''), ''out.txt'']) = Directory (config ''/data/app'')
        \<or> HasPrefix (Dir (Join [Directory (config ''/data/app''), ''out.txt'']))
             (Directory (config ''/data/app'') @ ''/''))
   \<and> TempFile unix (Dir (Join [Directory (config ''/data/app''), ''out.txt'']))
         (getTempPattern (config ''/data/app'')) (emptyFS, [])
       = (Inl (PathError ENOENT),
          (emptyFS, [(SysTempFile ''/data/app'' ''.temp*~'', Failed (PathError ENOENT))]))
   \<and> IsNotExist (PathError ENOENT)
   \<and> length (filter creation (snd (snd (WriteFile unix (config ''/data/app'') ''out.txt''
                  (writeString ''hello'') (emptyFS, [])))))
        \<le> length (filter creation (snd (emptyFS, [] :: event list))) + 2
   \<and> length (filter creation (snd (snd (WriteFile unix (config ''/data/app'') ''out.txt''
                  (writeString ''hello'') (emptyFS, []))))) = 2"
proof -
  have a: "Directory (config ''/data/app'') \<noteq> []" by (simp add: config_def)
  have b: "IsAbs (Directory (config ''/data/app''))" by code_simp
  have c: "\<not> IsAbs ''out.txt''" by code_simp
  have d: "Dir (Join [Directory (config ''/data/app''), ''out.txt'']) = Directory (config ''/data/app'')
        \<or> HasPrefix (Dir (Join [Directory (config ''/data/app''), ''out.txt'']))
             (Directory (config ''/data/app'') @ ''/'')" by code_simp
  have e: "TempFile unix (Dir (Join [Directory (config ''/data/app''), ''out.txt'']))
         (getTempPattern (config ''/data/app'')) (emptyFS, [])
       = (Inl (PathError ENOENT),
          (emptyFS, [(SysTempFile ''/data/app'' ''.temp*~'', Failed (PathError ENOENT))]))"
    by code_simp
  have f: "IsNotExist (PathError ENOENT)" by simp
  have g: "length (filter creation (snd (snd (WriteFile unix (config ''/data/app'') ''out.txt''
                  (writeString ''hello'') (emptyFS, []))))) = 2" by code_simp
  note T = WriteFile_retries_creation_once[OF a b c d e, of "writeString ''hello''",
      THEN conjunct2, THEN conjunct2]
  show ?thesis by (rule conjI[OF a conjI[OF b conjI[OF c conjI[OF d conjI[OF e conjI[OF f conjI[OF T g]]]]]]])
qed

text \<open>
  Claim C9. When the configured path exists and is a regular file, \<^verbatim>\<open>EnsureDirectory\<close>
  does not fail with a not-a-directory error. On every operating system: once the stat
  has succeeded with a mode without \<^verbatim>\<open>ModeDir\<close>, the comparison with the configured mode
  OR-ed with \<^verbatim>\<open>ModeDir\<close> mismatches, \<^verbatim>\<open>os.Chmod\<close> is called on the path, and the call
  returns what the chmod and then the ownership block give. On the file system \<open>unix\<close>
  the call returns success, its first two operations are the stat and the chmod, and
  the path is still a regular file. \<^verbatim>\<open>EnsureDirectoryIfNotExist\<close> returns success as soon
  as the stat of its path succeeds, whatever the mode.
\<close>

theorem EnsureDirectory_regular_file:
  assumes "Directory c \<noteq> []" and "IsAbs (Directory c)"
    and st: "Stat os (Directory c) s = (Inr info, s1)"
  shows "(Mode info AND ModeDir = 0 \<longrightarrow>
            Mode info \<noteq> getDirectoryMode c OR ModeDir
          \<and> EnsureDirectory os c s =
              (case Chmod os (Directory c) (getDirectoryMode c) s1 of
                 (Some err, s2) \<Rightarrow> (Return (Some err), s2)
               | (None, s2) \<Rightarrow>
                   if EnsureDirectoryOwnership c
                   then checkOwnership os (Directory c) (DirectoryUID c) (DirectoryGID c)
                          unableDirectory info s2
                   else (Return None, s2)))
     \<and> EnsureDirectoryIfNotExist os c s = (Return None, if Directory c = ''/'' then s else s1)
     \<and> (\<forall>w n. lookup w (Directory c) = Some n \<and> \<not> is_dir n \<longrightarrow>
           fst (EnsureDirectory unix c (w, [])) = Return None
         \<and> take 2 (snd (snd (EnsureDirectory unix c (w, []))))
             = [(SysStat (Directory c), Succeeded),
                (SysChmod (Directory c) (getDirectoryMode c), Succeeded)]
         \<and> (\<exists>n'. lookup (fst (snd (EnsureDirectory unix c (w, [])))) (Directory c) = Some n'
                 \<and> \<not> is_dir n'))"
proof (intro conjI impI allI)
  assume m: "Mode info AND ModeDir = 0"
  show ne: "Mode info \<noteq> getDirectoryMode c OR ModeDir"
    by (rule not_dir_mismatch[OF m])
  have sp: "EnsureDirectory_stat os c s = (Inr info, s1)"
    by (simp add: EnsureDirectory_stat_def st)
  show "EnsureDirectory os c s =
      (case Chmod os (Directory c) (getDirectoryMode c) s1 of
         (Some err, s2) \<Rightarrow> (Return (Some err), s2)
       | (None, s2) \<Rightarrow>
           if EnsureDirectoryOwnership c
           then checkOwnership os (Directory c) (DirectoryUID c) (DirectoryGID c)
                  unableDirectory info s2
           else (Return None, s2))"
    using assms(1,2) ne by (simp add: EnsureDirectory_def sp)
next
  show "EnsureDirectoryIfNotExist os c s = (Return None, if Directory c = ''/'' then s else s1)"
    using assms(1,2) by (simp add: EnsureDirectoryIfNotExist.simps[of os c s] st)
next
  fix w n
  assume a: "lookup w (Directory c) = Some n \<and> \<not> is_dir n"
  then have n: "lookup w (Directory c) = Some n" and f: "\<not> is_dir n" by simp_all
  have ne: "Mode (info_of n) \<noteq> getDirectoryMode c OR ModeDir"
    by (rule not_dir_mismatch[OF regular_no_ModeDir[OF f]])
  note found = unix_EnsureDirectory_found[OF assms(1,2) unix_stat_phase_found[OF n] n, of "[]"]
  show "fst (EnsureDirectory unix c (w, [])) = Return None"
    using found by simp
  show "take 2 (snd (snd (EnsureDirectory unix c (w, []))))
      = [(SysStat (Directory c), Succeeded),
         (SysChmod (Directory c) (getDirectoryMode c), Succeeded)]"
    using found ne by auto
  show "\<exists>n'. lookup (fst (snd (EnsureDirectory unix c (w, [])))) (Directory c) = Some n'
          \<and> \<not> is_dir n'"
    using found f by (simp add: is_dir_normalized)
qed

theorem EnsureDirectory_regular_file_witness:
  "Directory (config ''/d'') \<noteq> [] \<and> IsAbs (Directory (config ''/d''))
   \<and> Stat unix ''/d'' (fileFS, []) = (Inr (info_of fileNode), (fileFS, [(SysStat ''/d'', Succeeded)]))
   \<and> lookup fileFS ''/d'' = Some fileNode \<and> \<not> is_dir fileNode
   \<and> Mode (info_of fileNode) \<noteq> getDirectoryMode (config ''/d'') OR ModeDir
   \<and> EnsureDirectoryIfNotExist unix (config ''/d'') (fileFS, [])
       = (Return None, (fileFS, [(SysStat ''/d'', Succeeded)]))
   \<and> fst (EnsureDirectory unix (config ''/d'') (fileFS, [])) = Return None
   \<and> take 2 (snd (snd (EnsureDirectory unix (config ''/d'') (fileFS, []))))
       = [(SysStat ''/d'', Succeeded), (SysChmod ''/d'' (getDirectoryMode (config ''/d'')), Succeeded)]"
proof -
  have d: "Directory (config ''/d'') = ''/d''" by (simp add: config_def)
  have a: "Directory (config ''/d'') \<noteq> []" by (simp add: config_def)
  have b: "IsAbs (Directory (config ''/d''))" by code_simp
  have l: "lookup fileFS ''/d'' = Some fileNode" by code_simp
  have st: "Stat unix (Directory (config ''/d'')) (fileFS, [])
      = (Inr (info_of fileNode), (fileFS, [(SysStat ''/d'', Succeeded)]))"
    using unix_Stat_found[OF l, of "[]"] by (simp add: d)
  have f: "\<not> is_dir fileNode" by (simp add: fileNode_def)
  have m: "Mode (info_of fileNode) AND ModeDir = 0" by (rule regular_no_ModeDir[OF f])
  note t = EnsureDirectory_regular_file[OF a b st]
  note t1 = t[THEN conjunct1, THEN mp, OF m, THEN conjunct1]
  note t2 = t[THEN conjunct2, THEN conjunct1]
  have l': "lookup fileFS (Directory (config ''/d'')) = Some fileNode"
    by (simp only: d l)
  note t3 = t[THEN conjunct2, THEN conjunct2, THEN spec, THEN spec, THEN mp,
      OF conjI[OF l' f]]
  show ?thesis
    using a b st l f t1 t2 t3 by (simp add: d)
qed

text \<open>
  Claim C4. Running \<^verbatim>\<open>EnsureDirectory\<close> twice: the second call changes nothing and returns
  success. As stated, for every configuration with a valid directory, this fails: with
  a regular file at the path the first call returns success and the second call issues
  a chmod again, because the mode of a regular file never equals a mode with
  \<^verbatim>\<open>ModeDir\<close>.
\<close>

theorem EnsureDirectory_twice_counterexample:
  "Directory (config ''/d'') \<noteq> [] \<and> IsAbs (Directory (config ''/d''))
   \<and> fst (EnsureDirectory unix (config ''/d'') (fileFS, [])) = Return None
   \<and> fst (EnsureDirectory unix (config ''/d'')
            (fst (snd (EnsureDirectory unix (config ''/d'') (fileFS, []))), [])) = Return None
   \<and> snd (snd (EnsureDirectory unix (config ''/d'')
            (fst (snd (EnsureDirectory unix (config ''/d'') (fileFS, []))), [])))
       = [(SysStat ''/d'', Succeeded), (SysChmod ''/d'' 0x1ED, Succeeded)]"
  by code_simp

text \<open>
  Claim C4, amended. On the file system \<open>unix\<close>, if the first call returns success and
  leaves a directory at the path, the configured mode has only bits that \<^verbatim>\<open>os.Chmod\<close>
  passes on, and with ownership enforced neither id is \<open>-1\<close>, then the second call
  issues the stat alone, leaves the file system as it is and returns success.
\<close>

theorem EnsureDirectory_twice:
  assumes "Directory c \<noteq> []" and "IsAbs (Directory c)"
    and first: "EnsureDirectory unix c (w, []) = (Return None, (w1, tr1))"
    and dir: "lookup w1 (Directory c) = Some n1" "is_dir n1"
    and mode: "getDirectoryMode c AND chmodBits = getDirectoryMode c"
    and own: "EnsureDirectoryOwnership c \<longrightarrow>
           word_of_int (DirectoryUID c) \<noteq> (- 1 :: 32 word)
           \<and> word_of_int (DirectoryGID c) \<noteq> (- 1 :: 32 word)"
  shows "EnsureDirectory unix c (w1, []) = (Return None, (w1, [(SysStat (Directory c), Succeeded)]))"
proof -
  obtain r s' where sp: "EnsureDirectory_stat unix c (w, []) = (r, s')"
    by (cases "EnsureDirectory_stat unix c (w, [])")
  have "\<exists>info. r = Inr info"
  proof (cases r)
    case (Inl out)
    then have "EnsureDirectory unix c (w, []) = (out, s')"
      using sp assms(1,2) by (simp add: EnsureDirectory_def)
    then show ?thesis using first stat_phase_not_success[OF sp[unfolded Inl]] by simp
  qed simp
  then obtain info where r: "r = Inr info" by blast
  from unix_stat_phase[OF sp[unfolded r]] obtain n where
    n: "lookup (fst s') (Directory c) = Some n" "info = info_of n" by blast
  have sp': "EnsureDirectory_stat unix c (w, []) = (Inr (info_of n), (fst s', snd s'))"
    using sp r n(2) by simp
  from unix_EnsureDirectory_found[OF assms(1,2) sp' n(1)] first
  have "lookup w1 (Directory c) = Some (normalized c n)" by simp
  then have n1: "n1 = normalized c n" using dir(1) by simp
  note stable = normalized_stable[OF dir(2)[unfolded n1] mode own, folded n1]
  have sp2: "EnsureDirectory_stat unix c (w1, [])
      = (Inr (info_of n1), (w1, [] @ [(SysStat (Directory c), Succeeded)]))"
    by (rule unix_stat_phase_found[OF dir(1)])
  from unix_EnsureDirectory_found[OF assms(1,2) sp2 dir(1)] stable
  have "fst (EnsureDirectory unix c (w1, [])) = Return None"
    and "snd (snd (EnsureDirectory unix c (w1, []))) = [(SysStat (Directory c), Succeeded)]"
    and "fst (snd (EnsureDirectory unix c (w1, []))) = w1"
    by auto
  then show ?thesis by (metis prod.collapse)
qed

theorem EnsureDirectory_twice_witness:
  "fst (EnsureDirectory unix strictConfig (emptyFS, [])) = Return None
   \<and> length (snd (snd (EnsureDirectory unix strictConfig (emptyFS, [])))) = 10
   \<and> EnsureDirectory unix strictConfig
        (fst (snd (EnsureDirectory unix strictConfig (emptyFS, []))), [])
      = (Return None, (fst (snd (EnsureDirectory unix strictConfig (emptyFS, []))),
           [(SysStat ''/data/app'', Succeeded)]))"
proof -
  let ?r = "EnsureDirectory unix strictConfig (emptyFS, [])"
  let ?n = "\<lparr>is_dir = True, perm = 0x1E8, uid = 1000, gid = 1000, content = []\<rparr>"
  have d: "Directory strictConfig = ''/data/app''" by (simp add: strictConfig_def config_def)
  have a: "Directory strictConfig \<noteq> []" by (simp add: d)
  have b: "IsAbs (Directory strictConfig)" by code_simp
  have r: "fst ?r = Return None" by code_simp
  have len: "length (snd (snd ?r)) = 10" by code_simp
  have first: "?r = (Return None, (fst (snd ?r), snd (snd ?r)))"
    using r by (metis prod.collapse)
  have l: "lookup (fst (snd ?r)) (Directory strictConfig) = Some ?n" by code_simp
  have i: "is_dir ?n" by simp
  have m: "getDirectoryMode strictConfig AND chmodBits = getDirectoryMode strictConfig"
    by code_simp
  have o: "EnsureDirectoryOwnership strictConfig \<longrightarrow>
      word_of_int (DirectoryUID strictConfig) \<noteq> (- 1 :: 32 word)
      \<and> word_of_int (DirectoryGID strictConfig) \<noteq> (- 1 :: 32 word)"
    by (simp add: strictConfig_def config_def)
  note t = EnsureDirectory_twice[OF a b first l i m o]
  show ?thesis
    apply (rule conjI[OF r conjI[OF len]])
    using t by (simp only: d)
qed

end
